theory Spec2Isabelle
  imports Main "HOL-Library.AList"
begin

section \<open>JavaScript values and objects\<close>

text \<open>
  The values a format-type descriptor can carry. A function object is known by its
  identity and by its \<open>length\<close> (its number of declared parameters), the only two things
  this program can observe of it. Numbers are abstracted to integers: nothing here
  computes with them. Strings are lists of characters.
\<close>

type_synonym fn = nat

datatype jsval =
    Undefined
  | Null
  | Bool bool
  | Num int
  | Str string
  | Arr "jsval list"
  | Fun fn nat

text \<open>An object literal: its own properties in insertion order.\<close>

type_synonym obj = "(string \<times> jsval) list"

text \<open>\<open>o.k\<close>: the value of a property, \<open>undefined\<close> when the object has none.\<close>

definition get :: "obj \<Rightarrow> string \<Rightarrow> jsval" where
  "get ob k = (case map_of ob k of None \<Rightarrow> Undefined | Some v \<Rightarrow> v)"

text \<open>\<open>k in o\<close>.\<close>

definition has_property :: "obj \<Rightarrow> string \<Rightarrow> bool" where
  "has_property ob k = (map_of ob k \<noteq> None)"

text \<open>
  \<open>{ ...target, ...source }\<close>: every property of the source is written to the target
  in order; a key the target already has keeps its place and takes the new value, a new
  key goes to the end.
\<close>

definition spread :: "obj \<Rightarrow> obj \<Rightarrow> obj" where
  "spread target source = fold (\<lambda>(k, v). AList.update k v) source target"

fun typeof :: "jsval \<Rightarrow> string" where
  "typeof Undefined = ''undefined''"
| "typeof Null = ''object''"
| "typeof (Bool b) = ''boolean''"
| "typeof (Num n) = ''number''"
| "typeof (Str s) = ''string''"
| "typeof (Arr xs) = ''object''"
| "typeof (Fun f n) = ''function''"

text \<open>The truthiness an \<open>if\<close> tests.\<close>

fun truthy :: "jsval \<Rightarrow> bool" where
  "truthy Undefined = False"
| "truthy Null = False"
| "truthy (Bool b) = b"
| "truthy (Num n) = (n \<noteq> 0)"
| "truthy (Str s) = (s \<noteq> [])"
| "truthy (Arr xs) = True"
| "truthy (Fun f n) = True"

datatype js_error = TypeError

text \<open>
  \<open>v.length\<close>: reading a property of \<open>undefined\<close> or \<open>null\<close> throws a TypeError;
  strings, arrays and functions have a numeric length; booleans and numbers have none
  (the read gives \<open>undefined\<close>, here \<open>None\<close>).
\<close>

fun length_of :: "jsval \<Rightarrow> js_error + int option" where
  "length_of Undefined = Inl TypeError"
| "length_of Null = Inl TypeError"
| "length_of (Bool b) = Inr None"
| "length_of (Num n) = Inr None"
| "length_of (Str s) = Inr (Some (int (length s)))"
| "length_of (Arr xs) = Inr (Some (int (length xs)))"
| "length_of (Fun f n) = Inr (Some (int n))"

text \<open>\<open>l > n\<close> for a length just read: \<open>undefined > n\<close> is false.\<close>

fun greater_than :: "int option \<Rightarrow> int \<Rightarrow> bool" where
  "greater_than None n = False"
| "greater_than (Some l) n = (l > n)"

section \<open>Regular expressions\<close>

text \<open>
  The two patterns of the source are anchored at both ends and use only character
  classes, concatenation, \<open>*\<close> and \<open>+\<close>. A pattern is a term of \<open>rexp\<close>, a class is
  its list of ranges, and \<open>matches\<close> decides a whole string by derivatives.
\<close>

datatype rexp =
    Zero
  | One
  | Class "(char \<times> char) list"
  | Alt rexp rexp
  | Seq rexp rexp
  | Star rexp

definition Plus :: "rexp \<Rightarrow> rexp" where
  "Plus r = Seq r (Star r)"

definition in_range :: "char \<Rightarrow> char \<times> char \<Rightarrow> bool" where
  "in_range c r = ((of_char (fst r) :: nat) \<le> of_char c \<and> (of_char c :: nat) \<le> of_char (snd r))"

definition in_class :: "char \<Rightarrow> (char \<times> char) list \<Rightarrow> bool" where
  "in_class c rs = list_ex (in_range c) rs"

fun nullable :: "rexp \<Rightarrow> bool" where
  "nullable Zero = False"
| "nullable One = True"
| "nullable (Class rs) = False"
| "nullable (Alt r s) = (nullable r \<or> nullable s)"
| "nullable (Seq r s) = (nullable r \<and> nullable s)"
| "nullable (Star r) = True"

fun deriv :: "char \<Rightarrow> rexp \<Rightarrow> rexp" where
  "deriv c Zero = Zero"
| "deriv c One = Zero"
| "deriv c (Class rs) = (if in_class c rs then One else Zero)"
| "deriv c (Alt r s) = Alt (deriv c r) (deriv c s)"
| "deriv c (Seq r s) =
     (if nullable r then Alt (Seq (deriv c r) s) (deriv c s) else Seq (deriv c r) s)"
| "deriv c (Star r) = Seq (deriv c r) (Star r)"

fun matches :: "rexp \<Rightarrow> string \<Rightarrow> bool" where
  "matches r [] = nullable r"
| "matches r (c # cs) = matches (deriv c r) cs"

text \<open>The language of a pattern, against which \<open>matches\<close> is proved right.\<close>

inductive_set star :: "string set \<Rightarrow> string set" for A :: "string set" where
  star_empty: "[] \<in> star A"
| star_more: "u \<in> A \<Longrightarrow> v \<in> star A \<Longrightarrow> u @ v \<in> star A"

fun lang :: "rexp \<Rightarrow> string set" where
  "lang Zero = {}"
| "lang One = {[]}"
| "lang (Class rs) = {[c] | c. in_class c rs}"
| "lang (Alt r s) = lang r \<union> lang s"
| "lang (Seq r s) = {u @ v | u v. u \<in> lang r \<and> v \<in> lang s}"
| "lang (Star r) = star (lang r)"

text \<open>\<open>/^[a-z][a-z0-9-]*\/[a-z][a-z0-9-]*$/\<close>\<close>

definition name_re :: rexp where
  "name_re =
     Seq (Class [(CHR ''a'', CHR ''z'')])
    (Seq (Star (Class [(CHR ''a'', CHR ''z''), (CHR ''0'', CHR ''9''), (CHR ''-'', CHR ''-'')]))
    (Seq (Class [(CHR ''/'', CHR ''/'')])
    (Seq (Class [(CHR ''a'', CHR ''z'')])
         (Star (Class [(CHR ''a'', CHR ''z''), (CHR ''0'', CHR ''9''), (CHR ''-'', CHR ''-'')])))))"

text \<open>\<open>/^[_a-zA-Z]+[a-zA-Z0-9-]*$/\<close>\<close>

definition class_re :: rexp where
  "class_re =
     Seq (Plus (Class [(CHR ''_'', CHR ''_''), (CHR ''a'', CHR ''z''), (CHR ''A'', CHR ''Z'')]))
         (Star (Class [(CHR ''a'', CHR ''z''), (CHR ''A'', CHR ''Z''), (CHR ''0'', CHR ''9''),
                       (CHR ''-'', CHR ''-'')]))"

text \<open>
  \<open>ToString\<close>, as \<open>RegExp.prototype.test\<close> applies it to its argument. Both tests of
  this program stand behind a \<open>typeof\<close> guard, so the argument is a string, or \<open>null\<close>
  for a class name; the primitive cases are written out and the others, which are never
  coerced here, have no text (\<open>None\<close>, which matches nothing).
\<close>

fun ToString :: "jsval \<Rightarrow> string option" where
  "ToString (Str s) = Some s"
| "ToString Null = Some ''null''"
| "ToString Undefined = Some ''undefined''"
| "ToString (Bool b) = Some (if b then ''true'' else ''false'')"
| "ToString (Num n) = None"
| "ToString (Arr xs) = None"
| "ToString (Fun f n) = None"

definition RegExp_test :: "rexp \<Rightarrow> jsval \<Rightarrow> bool" where
  "RegExp_test r v = (case ToString v of None \<Rightarrow> False | Some s \<Rightarrow> matches r s)"

section \<open>The world around registerFormatType\<close>

text \<open>
  What \<open>window.console.error\<close> is called with, one constructor per message of the
  source, carrying the values the message interpolates.
\<close>

datatype diagnostic =
    NameNotString
  | NameInvalid
  | AlreadyRegistered jsval
  | TagNameInvalid
  | ClassNameType
  | ClassNameInvalid
  | BareElementTaken jsval jsval
  | ClassNameTaken jsval jsval
  | TitleMissing jsval
  | TooManyKeywords jsval
  | TitleNotString

text \<open>
  The \<open>core/rich-text\<close> store as this file uses it: three selectors and one action over
  the store's state. The store itself lives elsewhere, so \<open>registerFormatType\<close> takes it
  as a parameter.
\<close>

record 's store_api =
  getFormatType :: "'s \<Rightarrow> jsval \<Rightarrow> obj option"
  getFormatTypeForBareElement :: "'s \<Rightarrow> jsval \<Rightarrow> obj option"
  getFormatTypeForClassName :: "'s \<Rightarrow> jsval \<Rightarrow> obj option"
  addFormatTypes :: "obj \<Rightarrow> 's \<Rightarrow> 's"

text \<open>
  Arrays that are compared by reference live in a heap: an address is an index, an
  allocation appends. \<open>EMPTY_ARRAY\<close> is the module's shared empty array.
\<close>

type_synonym ref = nat

definition EMPTY_ARRAY :: ref where
  "EMPTY_ARRAY = 0"

text \<open>
  The cache of one memoized function-stack builder: the arguments of a call
  (\<open>previousStack\<close>, \<open>undefined\<close> or an array, and \<open>newFunction\<close>) and the array returned.
\<close>

type_synonym memo_cache = "((ref option \<times> fn) \<times> ref) list"

text \<open>
  One \<open>addFilter\<close> call: the hook, the namespace, and what the installed callback
  closes over (the descriptor and its memoized builder).
\<close>

record hook_entry =
  hookName :: string
  hook_namespace :: jsval
  hook_settings :: obj
  hook_builder :: nat

record 's world =
  rich_text :: 's
  console :: "diagnostic list"
  memoized :: "memo_cache list"
  heap :: "fn list list"
  hooks :: "hook_entry list"

section \<open>registerFormatType\<close>

text \<open>Lines 103 to 123: the bare-element or class-name lookup, whichever applies.\<close>

definition already_handled :: "'s store_api \<Rightarrow> 's \<Rightarrow> obj \<Rightarrow> diagnostic option" where
  "already_handled api st settings =
     (if get settings ''className'' = Null then
        (case getFormatTypeForBareElement api st (get settings ''tagName'') of
           Some formatTypeForBareElement \<Rightarrow>
             Some (BareElementTaken (get formatTypeForBareElement ''name'') (get settings ''tagName''))
         | None \<Rightarrow> None)
      else
        (case getFormatTypeForClassName api st (get settings ''className'') of
           Some formatTypeForClassName \<Rightarrow>
             Some (ClassNameTaken (get formatTypeForClassName ''name'') (get settings ''className''))
         | None \<Rightarrow> None))"

text \<open>Line 132: \<open>'keywords' in settings && settings.keywords.length > 3\<close>.\<close>

definition keywords_exceed :: "obj \<Rightarrow> js_error + bool" where
  "keywords_exceed settings =
     (if has_property settings ''keywords'' then
        (case length_of (get settings ''keywords'') of
           Inl e \<Rightarrow> Inl e
         | Inr l \<Rightarrow> Inr (greater_than l 3))
      else Inr False)"

text \<open>
  Lines 55 to 144, in the order of the source. Each
  \<open>window.console.error(m); return;\<close> is the result \<open>Inr (Some m)\<close>; \<open>Inr None\<close> is
  falling through every check; \<open>Inl e\<close> is an exception thrown by a check.
\<close>

definition validate :: "'s store_api \<Rightarrow> 's \<Rightarrow> obj \<Rightarrow> js_error + diagnostic option" where
  "validate api st settings =
     (if typeof (get settings ''name'') \<noteq> ''string'' then Inr (Some NameNotString)
      else if \<not> RegExp_test name_re (get settings ''name'') then Inr (Some NameInvalid)
      else if getFormatType api st (get settings ''name'') \<noteq> None
        then Inr (Some (AlreadyRegistered (get settings ''name'')))
      else if typeof (get settings ''tagName'') \<noteq> ''string'' \<or> get settings ''tagName'' = Str []
        then Inr (Some TagNameInvalid)
      else if (typeof (get settings ''className'') \<noteq> ''string'' \<or> get settings ''className'' = Str [])
              \<and> get settings ''className'' \<noteq> Null
        then Inr (Some ClassNameType)
      else if \<not> RegExp_test class_re (get settings ''className'') then Inr (Some ClassNameInvalid)
      else (case already_handled api st settings of
        Some d \<Rightarrow> Inr (Some d)
      | None \<Rightarrow>
          if \<not> has_property settings ''title'' \<or> get settings ''title'' = Str []
            then Inr (Some (TitleMissing (get settings ''name'')))
          else (case keywords_exceed settings of
            Inl e \<Rightarrow> Inl e
          | Inr True \<Rightarrow> Inr (Some (TooManyKeywords (get settings ''name'')))
          | Inr False \<Rightarrow>
              if typeof (get settings ''title'') \<noteq> ''string'' then Inr (Some TitleNotString)
              else Inr None)))"

text \<open>
  Lines 146 to 219, after every check has passed: the descriptor is dispatched to the
  store, \<open>memize\<close> makes a builder with a cache of its own, and \<open>addFilter\<close> is called
  with the \<open>name\<close> argument as namespace when the descriptor has
  \<open>__experimentalCreatePrepareEditableTree\<close>. \<open>hooks\<close> records that call; what
  \<open>addFilter\<close> itself does with it, its own check of the namespace included, belongs to
  another package, and \<open>console\<close> holds the diagnostics of \<open>registerFormatType\<close> only.
\<close>

definition install :: "'s store_api \<Rightarrow> jsval \<Rightarrow> obj \<Rightarrow> 's world \<Rightarrow> 's world" where
  "install api name settings w =
     (let w1 = w\<lparr>rich_text := addFormatTypes api settings (rich_text w)\<rparr>;
          getFunctionStackMemoized = length (memoized w1);
          w2 = w1\<lparr>memoized := memoized w1 @ [[]]\<rparr>
      in if truthy (get settings ''__experimentalCreatePrepareEditableTree'')
         then w2\<lparr>hooks := hooks w2 @
                [\<lparr>hookName = ''experimentalRichText'', hook_namespace = name,
                  hook_settings = settings, hook_builder = getFunctionStackMemoized\<rparr>]\<rparr>
         else w2)"

text \<open>
  The function: \<open>Inr (Some d)\<close> is returning the descriptor, \<open>Inr None\<close> is returning
  \<open>undefined\<close>, \<open>Inl e\<close> is throwing.
\<close>

definition registerFormatType ::
  "'s store_api \<Rightarrow> jsval \<Rightarrow> obj \<Rightarrow> 's world \<Rightarrow> (js_error + obj option) \<times> 's world" where
  "registerFormatType api name settings0 w =
     (let settings = spread [(''name'', name)] settings0 in
      case validate api (rich_text w) settings of
        Inl e \<Rightarrow> (Inl e, w)
      | Inr (Some d) \<Rightarrow> (Inr None, w\<lparr>console := console w @ [d]\<rparr>)
      | Inr None \<Rightarrow> (Inr (Some settings), install api name settings w))"

section \<open>The function-stack builder\<close>

text \<open>
  Lines 148 to 153, the function that \<open>memize\<close> wraps:
  \<open>(previousStack = EMPTY_ARRAY, newFunction) => [...previousStack, newFunction]\<close>.
  It reads the previous stack in the heap (the shared empty array when the argument is
  \<open>undefined\<close>) and gives the contents of the new array. An address outside the heap
  is no JavaScript value; the model answers \<open>None\<close> there.
\<close>

definition function_stack :: "fn list list \<Rightarrow> ref option \<Rightarrow> fn \<Rightarrow> fn list option" where
  "function_stack h previousStack newFunction =
     (let r = (case previousStack of None \<Rightarrow> EMPTY_ARRAY | Some p \<Rightarrow> p)
      in if r < length h then Some (h ! r @ [newFunction]) else None)"

text \<open>
  The array literal of line 149 makes a new array: it gets the next address of the heap.
\<close>

definition new_function_stack ::
  "fn list list \<Rightarrow> ref option \<Rightarrow> fn \<Rightarrow> (ref \<times> fn list list) option" where
  "new_function_stack h previousStack newFunction =
     (case function_stack h previousStack newFunction of
        None \<Rightarrow> None
      | Some xs \<Rightarrow> Some (length h, h @ [xs]))"

text \<open>
  Modelled from the spec: a call of a function that \<open>memize\<close> has wrapped. \<open>memize\<close> is an
  npm package and is not among the sources. The specification says of it: "memoized so
  that repeated calls with the same previous-stack reference and same new function
  return the same array identity", and of its cache that it is "never evicted or torn
  down; it grows at most to one cache line per distinct \<open>(previousStack, newFunction)\<close>
  pair actually seen". So a call whose arguments are in the cache returns the cached
  array and changes nothing, and any other call runs the wrapped function and adds one
  line for its arguments and the result.
\<close>

definition memize_call ::
  "('k \<times> ref) list \<Rightarrow> 'k \<Rightarrow> (fn list list \<Rightarrow> (ref \<times> fn list list) option) \<Rightarrow> fn list list
     \<Rightarrow> (ref \<times> ('k \<times> ref) list \<times> fn list list) option" where
  "memize_call cache args wrapped h =
     (case map_of cache args of
        Some r \<Rightarrow> Some (r, cache, h)
      | None \<Rightarrow>
         (case wrapped h of
            None \<Rightarrow> None
          | Some (r, h') \<Rightarrow> Some (r, (args, r) # cache, h')))"

text \<open>
  A call of the builder number \<open>b\<close>, as the installed component makes it at lines 165
  and 174: the memoized function of that registration, applied to \<open>previousStack\<close> and
  \<open>newFunction\<close>. A builder that does not exist is no JavaScript value; the model answers
  \<open>None\<close> there.
\<close>

definition getFunctionStackMemoized ::
  "nat \<Rightarrow> ref option \<Rightarrow> fn \<Rightarrow> 's world \<Rightarrow> (ref \<times> 's world) option" where
  "getFunctionStackMemoized b previousStack newFunction w =
     (if b < length (memoized w) then
        (case memize_call (memoized w ! b) (previousStack, newFunction)
                (\<lambda>h. new_function_stack h previousStack newFunction) (heap w) of
           None \<Rightarrow> None
         | Some (r, cache, h) \<Rightarrow> Some (r, w\<lparr>heap := h, memoized := (memoized w)[b := cache]\<rparr>))
      else None)"

text \<open>
  What holds of the heap and the caches in every state the program reaches: the shared
  empty array is empty, and every cache line points at an array of the heap that holds
  the stack of its arguments, no two lines of a cache having the same arguments or the
  same array.
\<close>

definition cache_ok :: "fn list list \<Rightarrow> memo_cache \<Rightarrow> bool" where
  "cache_ok h c \<longleftrightarrow>
     distinct (map fst c) \<and> distinct (map snd c) \<and>
     (\<forall>e \<in> set c. snd e < length h \<and> function_stack h (fst (fst e)) (snd (fst e)) = Some (h ! snd e))"

definition world_ok :: "'s world \<Rightarrow> bool" where
  "world_ok w \<longleftrightarrow>
     EMPTY_ARRAY < length (heap w) \<and> heap w ! EMPTY_ARRAY = [] \<and>
     (\<forall>c \<in> set (memoized w). cache_ok (heap w) c)"

text \<open>An argument the builder can be given: \<open>undefined\<close>, or an array of the heap.\<close>

definition stack_arg :: "'s world \<Rightarrow> ref option \<Rightarrow> bool" where
  "stack_arg w previousStack = (case previousStack of None \<Rightarrow> True | Some p \<Rightarrow> p < length (heap w))"

text \<open>
  What holds of the installed filters in every state the program reaches: each closes
  over a builder that exists, and no two close over the same one.
\<close>

definition hooks_ok :: "'s world \<Rightarrow> bool" where
  "hooks_ok w \<longleftrightarrow>
     distinct (map hook_builder (hooks w)) \<and>
     (\<forall>h \<in> set (hooks w). hook_builder h < length (memoized w))"

section \<open>What happens later\<close>

text \<open>
  The two things this file does to the world: a call of \<open>registerFormatType\<close>, whatever
  it returns or throws, and a call of a builder by a rendering component. \<open>later\<close> runs
  any sequence of them.
\<close>

datatype event =
    Register jsval obj
  | Build nat "ref option" fn

fun step :: "'s store_api \<Rightarrow> event \<Rightarrow> 's world \<Rightarrow> 's world" where
  "step api (Register name settings) w = snd (registerFormatType api name settings w)"
| "step api (Build b previousStack newFunction) w =
     (case getFunctionStackMemoized b previousStack newFunction w of
        None \<Rightarrow> w
      | Some (r, w1) \<Rightarrow> w1)"

definition later :: "'s store_api \<Rightarrow> event list \<Rightarrow> 's world \<Rightarrow> 's world" where
  "later api events w = fold (step api) events w"

section \<open>The registry\<close>

text \<open>
  Modelled from the spec: the state of the \<open>core/rich-text\<close> store, whose reducer and
  selectors are not among the sources; "external key-value store keyed by descriptor
  \<open>name\<close>".
\<close>

type_synonym registry = "(jsval \<times> obj) list"

text \<open>Modelled from the spec: \<open>getFormatType(name)\<close>, the descriptor stored under a name.\<close>

definition registry_getFormatType :: "registry \<Rightarrow> jsval \<Rightarrow> obj option" where
  "registry_getFormatType reg name = map_of reg name"

text \<open>
  Modelled from the spec: \<open>getFormatTypeForBareElement(tagName)\<close>, a registered
  descriptor that claims the tag as a bare-element handler (its \<open>className\<close> is the
  "none" sentinel, \<open>null\<close>).
\<close>

definition registry_getFormatTypeForBareElement :: "registry \<Rightarrow> jsval \<Rightarrow> obj option" where
  "registry_getFormatTypeForBareElement reg tagName =
     find (\<lambda>d. get d ''className'' = Null \<and> get d ''tagName'' = tagName) (map snd reg)"

text \<open>
  Modelled from the spec: \<open>getFormatTypeForClassName(className)\<close>, a registered
  descriptor that claims "that exact class name".
\<close>

definition registry_getFormatTypeForClassName :: "registry \<Rightarrow> jsval \<Rightarrow> obj option" where
  "registry_getFormatTypeForClassName reg className =
     find (\<lambda>d. get d ''className'' = className) (map snd reg)"

text \<open>
  Modelled from the spec: \<open>addFormatTypes(descriptor)\<close>, "the descriptor is inserted into
  the registry" under its name.
\<close>

definition registry_addFormatTypes :: "obj \<Rightarrow> registry \<Rightarrow> registry" where
  "registry_addFormatTypes d reg = AList.update (get d ''name'') d reg"

text \<open>Modelled from the spec: the four operations as the store \<open>registerFormatType\<close> is given.\<close>

definition registry_api :: "registry store_api" where
  "registry_api =
     \<lparr>getFormatType = registry_getFormatType,
      getFormatTypeForBareElement = registry_getFormatTypeForBareElement,
      getFormatTypeForClassName = registry_getFormatTypeForClassName,
      addFormatTypes = registry_addFormatTypes\<rparr>"

text \<open>The world when the module has been loaded: nothing registered, one shared empty array.\<close>

definition init_world :: "registry world" where
  "init_world = \<lparr>rich_text = [], console = [], memoized = [], heap = [[]], hooks = []\<rparr>"

section \<open>Example descriptors\<close>

definition highlight :: obj where
  "highlight =
     [(''tagName'', Str ''mark''), (''className'', Str ''my-highlight''),
      (''title'', Str ''Highlight''), (''edit'', Fun 1 1)]"

definition bold :: obj where
  "bold = [(''tagName'', Str ''strong''), (''className'', Null), (''title'', Str ''Bold'')]"

section \<open>The rules of the specification\<close>

text \<open>
  The validation sequence as the specification words it, one predicate per rule, over
  the descriptor (the settings merged with the name). They are compared with
  \<open>validate\<close>, which follows the source.
\<close>

text \<open>1. \<open>name\<close> must be a string.\<close>

definition rule1 :: "obj \<Rightarrow> bool" where
  "rule1 d \<longleftrightarrow> (\<exists>s. get d ''name'' = Str s)"

text \<open>2. \<open>name\<close> must match \<open>^[a-z][a-z0-9-]*/[a-z][a-z0-9-]*$\<close> (namespace/slug).\<close>

definition rule2 :: "obj \<Rightarrow> bool" where
  "rule2 d \<longleftrightarrow> (\<exists>s. get d ''name'' = Str s \<and> s \<in> lang name_re)"

text \<open>3. \<open>name\<close> must not already exist in the registry.\<close>

definition rule3 :: "'s store_api \<Rightarrow> 's \<Rightarrow> obj \<Rightarrow> bool" where
  "rule3 api st d \<longleftrightarrow> getFormatType api st (get d ''name'') = None"

text \<open>4. \<open>tagName\<close> must be a non-empty string.\<close>

definition rule4 :: "obj \<Rightarrow> bool" where
  "rule4 d \<longleftrightarrow> (\<exists>t. get d ''tagName'' = Str t \<and> t \<noteq> [])"

text \<open>5. \<open>className\<close> must be a non-empty string, or the "none" sentinel (\<open>null\<close> in the source).\<close>

definition rule5 :: "obj \<Rightarrow> bool" where
  "rule5 d \<longleftrightarrow> get d ''className'' = Null \<or> (\<exists>c. get d ''className'' = Str c \<and> c \<noteq> [])"

text \<open>6. If \<open>className\<close> is a real string, it must match \<open>^[_a-zA-Z]+[a-zA-Z0-9-]*$\<close>.\<close>

definition rule6 :: "obj \<Rightarrow> bool" where
  "rule6 d \<longleftrightarrow> (\<forall>c. get d ''className'' = Str c \<longrightarrow> c \<in> lang class_re)"

text \<open>7. If \<open>className\<close> is the "none" sentinel, no other registered descriptor may already
  claim the same \<open>tagName\<close> as a bare-element handler.\<close>

definition rule7 :: "'s store_api \<Rightarrow> 's \<Rightarrow> obj \<Rightarrow> bool" where
  "rule7 api st d \<longleftrightarrow>
     (get d ''className'' = Null \<longrightarrow> getFormatTypeForBareElement api st (get d ''tagName'') = None)"

text \<open>8. If \<open>className\<close> is a real string, no other registered descriptor may already claim
  that exact class name.\<close>

definition rule8 :: "'s store_api \<Rightarrow> 's \<Rightarrow> obj \<Rightarrow> bool" where
  "rule8 api st d \<longleftrightarrow>
     (\<forall>c. get d ''className'' = Str c \<longrightarrow> getFormatTypeForClassName api st (Str c) = None)"

text \<open>9. \<open>title\<close> must be present and non-empty.\<close>

definition rule9 :: "obj \<Rightarrow> bool" where
  "rule9 d \<longleftrightarrow> has_property d ''title'' \<and> get d ''title'' \<noteq> Str []"

text \<open>10. If \<open>keywords\<close> is present, its length must not exceed 3.\<close>

definition rule10 :: "obj \<Rightarrow> bool" where
  "rule10 d \<longleftrightarrow>
     (has_property d ''keywords'' \<longrightarrow> (\<forall>l. length_of (get d ''keywords'') = Inr (Some l) \<longrightarrow> l \<le> 3))"

text \<open>11. \<open>title\<close> must be a string.\<close>

definition rule11 :: "obj \<Rightarrow> bool" where
  "rule11 d \<longleftrightarrow> (\<exists>t. get d ''title'' = Str t)"

text \<open>The one descriptor shape whose \<open>keywords\<close> has no length to read: the field is present
  and holds \<open>undefined\<close> or \<open>null\<close>.\<close>

definition keywords_unreadable :: "obj \<Rightarrow> bool" where
  "keywords_unreadable d \<longleftrightarrow>
     has_property d ''keywords'' \<and> (get d ''keywords'' = Undefined \<or> get d ''keywords'' = Null)"

text \<open>The diagnostic of the first rule that fails, in the stated order; \<open>None\<close> when every
  rule holds.\<close>

definition first_failure :: "'s store_api \<Rightarrow> 's \<Rightarrow> obj \<Rightarrow> diagnostic option" where
  "first_failure api st d =
     (if \<not> rule1 d then Some NameNotString
      else if \<not> rule2 d then Some NameInvalid
      else if \<not> rule3 api st d then Some (AlreadyRegistered (get d ''name''))
      else if \<not> rule4 d then Some TagNameInvalid
      else if \<not> rule5 d then Some ClassNameType
      else if \<not> rule6 d then Some ClassNameInvalid
      else if \<not> rule7 api st d then
        Some (BareElementTaken
          (get (the (getFormatTypeForBareElement api st (get d ''tagName''))) ''name'')
          (get d ''tagName''))
      else if \<not> rule8 api st d then
        Some (ClassNameTaken
          (get (the (getFormatTypeForClassName api st (get d ''className''))) ''name'')
          (get d ''className''))
      else if \<not> rule9 d then Some (TitleMissing (get d ''name''))
      else if \<not> rule10 d then Some (TooManyKeywords (get d ''name''))
      else if \<not> rule11 d then Some TitleNotString
      else None)"

text \<open>More example descriptors.\<close>

definition four_keywords :: obj where
  "four_keywords = bold @ [(''keywords'', Arr [Str ''a'', Str ''b'', Str ''c'', Str ''d''])]"

definition three_keywords :: obj where
  "three_keywords = bold @ [(''keywords'', Arr [Str ''a'', Str ''b'', Str ''c''])]"

definition digit_class :: obj where
  "digit_class = [(''tagName'', Str ''b''), (''className'', Str ''1abc''), (''title'', Str ''B'')]"

definition hyphen_class :: obj where
  "hyphen_class = [(''tagName'', Str ''b''), (''className'', Str ''a-1''), (''title'', Str ''B'')]"

definition annotation :: obj where
  "annotation =
     [(''tagName'', Str ''mark''), (''className'', Str ''annotation-text''),
      (''title'', Str ''Annotation''), (''__experimentalCreatePrepareEditableTree'', Fun 2 2)]"

definition spellcheck :: obj where
  "spellcheck =
     [(''tagName'', Str ''span''), (''className'', Str ''misspelled''),
      (''title'', Str ''Spelling''), (''__experimentalCreatePrepareEditableTree'', Fun 3 2)]"

definition one_format :: "registry world" where
  "one_format = snd (registerFormatType registry_api (Str ''core/annotation'') annotation init_world)"

definition two_formats :: "registry world" where
  "two_formats = snd (registerFormatType registry_api (Str ''core/spellcheck'') spellcheck one_format)"

definition italic :: obj where
  "italic = [(''tagName'', Str ''em''), (''className'', Null), (''title'', Str ''Italic'')]"

definition bold_registered :: "registry world" where
  "bold_registered = snd (registerFormatType registry_api (Str ''a/b'') bold init_world)"

section \<open>The pattern matcher is right\<close>

lemma nullable_iff: "nullable r \<longleftrightarrow> [] \<in> lang r"
  by (induction r) (auto intro: star_empty)

lemma star_cons_iff:
  "c # w \<in> star A \<longleftrightarrow> (\<exists>u v. w = u @ v \<and> c # u \<in> A \<and> v \<in> star A)"
proof
  assume "c # w \<in> star A"
  then show "\<exists>u v. w = u @ v \<and> c # u \<in> A \<and> v \<in> star A"
  proof (induction "c # w" rule: star.induct)
    case (star_more u v)
    show ?case
    proof (cases u)
      case Nil
      with star_more show ?thesis by simp
    next
      case (Cons d u')
      with star_more.hyps show ?thesis by auto
    qed
  qed
next
  assume "\<exists>u v. w = u @ v \<and> c # u \<in> A \<and> v \<in> star A"
  then obtain u v where "w = u @ v" "c # u \<in> A" "v \<in> star A" by blast
  then have "(c # u) @ v \<in> star A" by (intro star_more)
  with \<open>w = u @ v\<close> show "c # w \<in> star A" by simp
qed

lemma lang_deriv: "w \<in> lang (deriv c r) \<longleftrightarrow> c # w \<in> lang r"
proof (induction r arbitrary: w)
  case (Seq r s)
  show ?case
  proof
    assume "w \<in> lang (deriv c (Seq r s))"
    then show "c # w \<in> lang (Seq r s)"
      using Seq nullable_iff [of r]
      by (auto split: if_splits simp: Cons_eq_append_conv)
  next
    assume "c # w \<in> lang (Seq r s)"
    then obtain u v where uv: "c # w = u @ v" "u \<in> lang r" "v \<in> lang s" by auto
    show "w \<in> lang (deriv c (Seq r s))"
    proof (cases u)
      case Nil
      with uv have "nullable r" "w \<in> lang (deriv c s)" using Seq nullable_iff by auto
      then show ?thesis by simp
    next
      case (Cons d u')
      with uv have "u' \<in> lang (deriv c r)" "w = u' @ v" using Seq by auto
      with uv show ?thesis by auto
    qed
  qed
next
  case (Star r)
  then show ?case by (auto simp: star_cons_iff)
qed auto

lemma matches_iff: "matches r s \<longleftrightarrow> s \<in> lang r"
  by (induction s arbitrary: r) (simp_all add: nullable_iff lang_deriv)

section \<open>Objects and coercions\<close>

lemma typeof_string_iff: "typeof v = ''string'' \<longleftrightarrow> (\<exists>s. v = Str s)"
  by (cases v) simp_all

lemma tested_values_have_text:
  "typeof v = ''string'' \<or> v = Null \<Longrightarrow> ToString v \<noteq> None"
  by (cases v) simp_all

lemma RegExp_test_Str: "RegExp_test r (Str s) \<longleftrightarrow> s \<in> lang r"
  by (simp add: RegExp_test_def matches_iff)

lemma update_fresh: "k \<notin> fst ` set t \<Longrightarrow> AList.update k v t = t @ [(k, v)]"
  by (induction t) auto

lemma spread_append:
  "distinct (map fst s) \<Longrightarrow> fst ` set s \<inter> fst ` set t = {} \<Longrightarrow> spread t s = t @ s"
proof (induction s arbitrary: t)
  case Nil
  then show ?case by (simp add: spread_def)
next
  case (Cons e s)
  obtain k v where e: "e = (k, v)" by (cases e)
  from Cons.prems e have k: "k \<notin> fst ` set t" by auto
  have "spread t (e # s) = spread (t @ [(k, v)]) s"
    using k by (simp add: spread_def e update_fresh)
  also have "\<dots> = (t @ [(k, v)]) @ s"
    using Cons.prems e by (intro Cons.IH) (auto simp: image_iff)
  finally show ?case by (simp add: e)
qed

lemma spread_without_name:
  "distinct (map fst settings) \<Longrightarrow> \<not> has_property settings ''name'' \<Longrightarrow>
   spread [(''name'', name)] settings = (''name'', name) # settings"
  using spread_append [of settings "[(''name'', name)]"]
  by (simp add: has_property_def map_of_eq_None_iff)




lemma map_of_spread: "map_of (spread t s) = map_of t ++ map_of (rev s)"
proof (induction s arbitrary: t)
  case Nil
  then show ?case by (simp add: spread_def)
next
  case (Cons e s)
  obtain k v where e: "e = (k, v)" by (cases e)
  have "map_of (spread t (e # s)) = map_of (spread (AList.update k v t) s)"
    by (simp add: spread_def e)
  also have "\<dots> = map_of (AList.update k v t) ++ map_of (rev s)" by (rule Cons.IH)
  also have "\<dots> = map_of t ++ map_of (rev (e # s))"
    by (simp add: e AList.update_conv' map_add_upd_left) 
  finally show ?case .
qed

section \<open>Passing the checks\<close>

lemma get_Cons: "get ((k, v) # ob) k' = (if k' = k then v else get ob k')"
  by (simp add: get_def)

lemma has_property_Cons: "has_property ((k, v) # ob) k' \<longleftrightarrow> k' = k \<or> has_property ob k'"
  by (auto simp: has_property_def)

lemma get_has_property: "get ob k = v \<Longrightarrow> v \<noteq> Undefined \<Longrightarrow> has_property ob k"
  by (auto simp: get_def has_property_def split: option.splits)



lemma RegExp_test_class_Null: "RegExp_test class_re Null"
  by (simp add: RegExp_test_def class_re_def Plus_def in_class_def in_range_def)

lemma class_re_nonempty: "c \<in> lang class_re \<Longrightarrow> c \<noteq> []"
  unfolding matches_iff [symmetric] by (auto simp: class_re_def Plus_def)

lemma install_rich_text: "rich_text (install api name d w) = addFormatTypes api d (rich_text w)"
  by (simp add: install_def Let_def)

lemma install_console: "console (install api name d w) = console w"
  by (simp add: install_def Let_def)

lemma validate_valid:
  assumes name: "get d ''name'' = Str n" "n \<in> lang name_re" "getFormatType api st (Str n) = None"
    and tag: "get d ''tagName'' = Str t" "t \<noteq> []"
    and cls: "get d ''className'' = Null \<and> getFormatTypeForBareElement api st (Str t) = None
            \<or> (\<exists>c. get d ''className'' = Str c \<and> c \<in> lang class_re
                   \<and> getFormatTypeForClassName api st (Str c) = None)"
    and title: "has_property d ''title''" "get d ''title'' \<noteq> Str []"
  shows "validate api st d =
     (case keywords_exceed d of
        Inl e \<Rightarrow> Inl e
      | Inr True \<Rightarrow> Inr (Some (TooManyKeywords (get d ''name'')))
      | Inr False \<Rightarrow> if typeof (get d ''title'') \<noteq> ''string'' then Inr (Some TitleNotString) else Inr None)"
  using cls
proof
  assume "get d ''className'' = Null \<and> getFormatTypeForBareElement api st (Str t) = None"
  then show ?thesis
    using name tag title
    by (simp add: validate_def RegExp_test_Str RegExp_test_class_Null already_handled_def)
next
  assume "\<exists>c. get d ''className'' = Str c \<and> c \<in> lang class_re
                   \<and> getFormatTypeForClassName api st (Str c) = None"
  then obtain c where "get d ''className'' = Str c" "c \<in> lang class_re"
    "getFormatTypeForClassName api st (Str c) = None" by blast
  then show ?thesis
    using name tag title class_re_nonempty [of c]
    by (simp add: validate_def RegExp_test_Str already_handled_def)
qed

section \<open>The checks follow the rules\<close>

lemma code_rule1: "typeof (get d ''name'') \<noteq> ''string'' \<longleftrightarrow> \<not> rule1 d"
  by (simp add: rule1_def typeof_string_iff)

lemma code_rule2: "rule1 d \<Longrightarrow> RegExp_test name_re (get d ''name'') \<longleftrightarrow> rule2 d"
  by (auto simp: rule1_def rule2_def RegExp_test_Str)

lemma code_rule3: "getFormatType api st (get d ''name'') \<noteq> None \<longleftrightarrow> \<not> rule3 api st d"
  by (simp add: rule3_def)

lemma code_rule4:
  "typeof (get d ''tagName'') \<noteq> ''string'' \<or> get d ''tagName'' = Str [] \<longleftrightarrow> \<not> rule4 d"
  by (auto simp: rule4_def typeof_string_iff)

lemma code_rule5:
  "(typeof (get d ''className'') \<noteq> ''string'' \<or> get d ''className'' = Str [])
     \<and> get d ''className'' \<noteq> Null \<longleftrightarrow> \<not> rule5 d"
  by (auto simp: rule5_def typeof_string_iff)

lemma code_rule6: "rule5 d \<Longrightarrow> RegExp_test class_re (get d ''className'') \<longleftrightarrow> rule6 d"
  by (auto simp: rule5_def rule6_def RegExp_test_Str RegExp_test_class_Null)

lemma code_rule7_8:
  "rule5 d \<Longrightarrow> already_handled api st d =
     (if \<not> rule7 api st d then
        Some (BareElementTaken
          (get (the (getFormatTypeForBareElement api st (get d ''tagName''))) ''name'')
          (get d ''tagName''))
      else if \<not> rule8 api st d then
        Some (ClassNameTaken
          (get (the (getFormatTypeForClassName api st (get d ''className''))) ''name'')
          (get d ''className''))
      else None)"
  by (auto simp: rule5_def rule7_def rule8_def already_handled_def)

lemma code_rule9:
  "\<not> has_property d ''title'' \<or> get d ''title'' = Str [] \<longleftrightarrow> \<not> rule9 d"
  by (auto simp: rule9_def)

lemma code_rule10:
  "keywords_exceed d =
     (if keywords_unreadable d then Inl TypeError else Inr (\<not> rule10 d))"
  by (cases "get d ''keywords''")
     (auto simp: keywords_exceed_def keywords_unreadable_def rule10_def)

lemma code_rule11: "typeof (get d ''title'') \<noteq> ''string'' \<longleftrightarrow> \<not> rule11 d"
  by (simp add: rule11_def typeof_string_iff)



lemma validate_by_rules:
  "validate api st d =
     (if \<not> rule1 d then Inr (Some NameNotString)
      else if \<not> RegExp_test name_re (get d ''name'') then Inr (Some NameInvalid)
      else if \<not> rule3 api st d then Inr (Some (AlreadyRegistered (get d ''name'')))
      else if \<not> rule4 d then Inr (Some TagNameInvalid)
      else if \<not> rule5 d then Inr (Some ClassNameType)
      else if \<not> RegExp_test class_re (get d ''className'') then Inr (Some ClassNameInvalid)
      else (case already_handled api st d of
        Some x \<Rightarrow> Inr (Some x)
      | None \<Rightarrow>
          if \<not> rule9 d then Inr (Some (TitleMissing (get d ''name'')))
          else (case keywords_exceed d of
            Inl e \<Rightarrow> Inl e
          | Inr True \<Rightarrow> Inr (Some (TooManyKeywords (get d ''name'')))
          | Inr False \<Rightarrow> if \<not> rule11 d then Inr (Some TitleNotString) else Inr None)))"
  unfolding validate_def code_rule1 code_rule3 code_rule4 code_rule5 code_rule9 code_rule11
  by (rule refl)

lemma validate_follows_rules:
  "validate api st d =
     (if rule1 d \<and> rule2 d \<and> rule3 api st d \<and> rule4 d \<and> rule5 d \<and> rule6 d \<and> rule7 api st d
         \<and> rule8 api st d \<and> rule9 d \<and> keywords_unreadable d
      then Inl TypeError
      else Inr (first_failure api st d))"
proof -
  consider
      (f1) "\<not> rule1 d"
    | (f2) "rule1 d" "\<not> rule2 d"
    | (f3) "rule1 d" "rule2 d" "\<not> rule3 api st d"
    | (f4) "rule1 d" "rule2 d" "rule3 api st d" "\<not> rule4 d"
    | (f5) "rule1 d" "rule2 d" "rule3 api st d" "rule4 d" "\<not> rule5 d"
    | (f6) "rule1 d" "rule2 d" "rule3 api st d" "rule4 d" "rule5 d" "\<not> rule6 d"
    | (f7) "rule1 d" "rule2 d" "rule3 api st d" "rule4 d" "rule5 d" "rule6 d"
           "already_handled api st d \<noteq> None"
    | (f9) "rule1 d" "rule2 d" "rule3 api st d" "rule4 d" "rule5 d" "rule6 d"
           "already_handled api st d = None" "\<not> rule9 d"
    | (ok) "rule1 d" "rule2 d" "rule3 api st d" "rule4 d" "rule5 d" "rule6 d"
           "already_handled api st d = None" "rule9 d"
    by blast
  then show ?thesis
  proof cases
    case f1
    then have "validate api st d = Inr (Some NameNotString)"
      by (simp add: validate_by_rules code_rule2 code_rule6)
    with f1 show ?thesis by (simp add: first_failure_def)
  next
    case f2
    then have "validate api st d = Inr (Some NameInvalid)"
      by (simp add: validate_by_rules code_rule2 code_rule6)
    with f2 show ?thesis by (simp add: first_failure_def)
  next
    case f3
    then have "validate api st d = Inr (Some (AlreadyRegistered (get d ''name'')))"
      by (simp add: validate_by_rules code_rule2 code_rule6)
    with f3 show ?thesis by (simp add: first_failure_def)
  next
    case f4
    then have "validate api st d = Inr (Some TagNameInvalid)"
      by (simp add: validate_by_rules code_rule2 code_rule6)
    with f4 show ?thesis by (simp add: first_failure_def)
  next
    case f5
    then have "validate api st d = Inr (Some ClassNameType)"
      by (simp add: validate_by_rules code_rule2 code_rule6)
    with f5 show ?thesis by (simp add: first_failure_def)
  next
    case f6
    then have "validate api st d = Inr (Some ClassNameInvalid)"
      by (simp add: validate_by_rules code_rule2 code_rule6)
    with f6 show ?thesis by (simp add: first_failure_def)
  next
    case f7
    then obtain x where x: "already_handled api st d = Some x" by blast
    with f7 have "validate api st d = Inr (Some x)"
      by (simp add: validate_by_rules code_rule2 code_rule6)
    moreover have "first_failure api st d = Some x"
      using f7 x code_rule7_8 [of d api st]
      by (simp add: first_failure_def split: if_splits)
    moreover have "\<not> (rule7 api st d \<and> rule8 api st d)"
      using f7 x code_rule7_8 [of d api st] by (auto split: if_splits)
    ultimately show ?thesis by auto
  next
    case f9
    then have "validate api st d = Inr (Some (TitleMissing (get d ''name'')))"
      by (simp add: validate_by_rules code_rule2 code_rule6)
    moreover have "rule7 api st d" "rule8 api st d"
      using f9 code_rule7_8 [of d api st] by (auto split: if_splits)
    ultimately show ?thesis using f9 by (simp add: first_failure_def)
  next
    case ok
    then have "validate api st d =
        (case keywords_exceed d of
           Inl e \<Rightarrow> Inl e
         | Inr True \<Rightarrow> Inr (Some (TooManyKeywords (get d ''name'')))
         | Inr False \<Rightarrow> if \<not> rule11 d then Inr (Some TitleNotString) else Inr None)"
      by (simp add: validate_by_rules code_rule2 code_rule6)
    moreover have "rule7 api st d" "rule8 api st d"
      using ok code_rule7_8 [of d api st] by (auto split: if_splits)
    ultimately show ?thesis using ok by (simp add: first_failure_def code_rule10)
  qed
qed


lemma first_failure_ClassNameInvalid:
  "first_failure api st d = Some ClassNameInvalid \<longleftrightarrow>
     rule1 d \<and> rule2 d \<and> rule3 api st d \<and> rule4 d \<and> rule5 d \<and> \<not> rule6 d"
  by (simp add: first_failure_def)

lemma register_by_validate:
  "registerFormatType api name settings w =
     (case validate api (rich_text w) (spread [(''name'', name)] settings) of
        Inl e \<Rightarrow> (Inl e, w)
      | Inr (Some x) \<Rightarrow> (Inr None, w\<lparr>console := console w @ [x]\<rparr>)
      | Inr None \<Rightarrow> (Inr (Some (spread [(''name'', name)] settings)),
                      install api name (spread [(''name'', name)] settings) w))"
  by (simp add: registerFormatType_def Let_def)

text \<open>The definitions a run on a concrete input unfolds.\<close>

lemmas run_defs =
  registerFormatType_def validate_def install_def spread_def get_def has_property_def
  RegExp_test_def name_re_def class_re_def Plus_def in_class_def in_range_def
  already_handled_def keywords_exceed_def registry_api_def registry_getFormatType_def
  registry_getFormatTypeForBareElement_def registry_getFormatTypeForClassName_def
  registry_addFormatTypes_def init_world_def Let_def

section \<open>Outcomes of a call\<close>

lemma first_failure_None_iff:
  "first_failure api st d = None \<longleftrightarrow>
     rule1 d \<and> rule2 d \<and> rule3 api st d \<and> rule4 d \<and> rule5 d \<and> rule6 d \<and> rule7 api st d
     \<and> rule8 api st d \<and> rule9 d \<and> rule10 d \<and> rule11 d"
  by (simp add: first_failure_def)

lemma validate_passes_iff:
  "validate api st d = Inr None \<longleftrightarrow>
     rule1 d \<and> rule2 d \<and> rule3 api st d \<and> rule4 d \<and> rule5 d \<and> rule6 d \<and> rule7 api st d
     \<and> rule8 api st d \<and> rule9 d \<and> rule10 d \<and> rule11 d \<and> \<not> keywords_unreadable d"
  by (auto simp: validate_follows_rules first_failure_None_iff)

lemma register_cases:
  obtains (threw) e where "registerFormatType api name settings w = (Inl e, w)"
      "validate api (rich_text w) (spread [(''name'', name)] settings) = Inl e"
    | (rejected) x where
      "registerFormatType api name settings w = (Inr None, w\<lparr>console := console w @ [x]\<rparr>)"
      "validate api (rich_text w) (spread [(''name'', name)] settings) = Inr (Some x)"
    | (registered)
      "registerFormatType api name settings w =
         (Inr (Some (spread [(''name'', name)] settings)),
          install api name (spread [(''name'', name)] settings) w)"
      "validate api (rich_text w) (spread [(''name'', name)] settings) = Inr None"
proof (cases "validate api (rich_text w) (spread [(''name'', name)] settings)")
  case (Inl e)
  then show ?thesis using threw [of e] by (simp add: register_by_validate)
next
  case (Inr r)
  then show ?thesis
    using rejected registered by (cases r) (simp_all add: register_by_validate)
qed

lemma register_rule_broken:
  assumes "\<not> (rule1 d \<and> rule2 d \<and> rule3 api (rich_text w) d \<and> rule4 d \<and> rule5 d \<and> rule6 d
             \<and> rule7 api (rich_text w) d \<and> rule8 api (rich_text w) d \<and> rule9 d)"
    and "d = spread [(''name'', name)] settings"
  shows "\<exists>x. registerFormatType api name settings w = (Inr None, w\<lparr>console := console w @ [x]\<rparr>)
           \<and> first_failure api (rich_text w) d = Some x"
proof -
  have "first_failure api (rich_text w) d \<noteq> None"
    using assms(1) by (auto simp: first_failure_None_iff)
  then obtain x where x: "first_failure api (rich_text w) d = Some x" by blast
  have "validate api (rich_text w) d = Inr (Some x)"
    using assms(1) x by (auto simp: validate_follows_rules)
  then show ?thesis
    using x by (simp add: register_by_validate assms(2) [symmetric])
qed

section \<open>The heap and the caches\<close>

lemma function_stack_Some:
  "world_ok w \<Longrightarrow> stack_arg w p \<Longrightarrow>
   function_stack (heap w) p f = Some ((case p of None \<Rightarrow> [] | Some r \<Rightarrow> heap w ! r) @ [f])"
  by (cases p) (simp_all add: function_stack_def world_ok_def stack_arg_def)

lemma function_stack_grow:
  "function_stack h p f = Some xs \<Longrightarrow> function_stack (h @ [ys]) p f = Some xs"
  by (auto simp: function_stack_def Let_def nth_append split: if_splits)

lemma cache_ok_grow: "cache_ok h c \<Longrightarrow> cache_ok (h @ [ys]) c"
  unfolding cache_ok_def
  by (auto simp: nth_append dest: function_stack_grow)

lemma cache_ok_insert:
  assumes "cache_ok h c" and "map_of c (p, f) = None" and "function_stack h p f = Some xs"
  shows "cache_ok (h @ [xs]) (((p, f), length h) # c)"
proof -
  have "(p, f) \<notin> fst ` set c"
    using assms(2) by (simp add: map_of_eq_None_iff)
  moreover have "length h \<notin> snd ` set c"
    using assms(1) by (auto simp: cache_ok_def)
  moreover have "cache_ok (h @ [xs]) c"
    using assms(1) by (rule cache_ok_grow)
  moreover have "function_stack (h @ [xs]) p f = Some xs"
    using assms(3) by (rule function_stack_grow)
  ultimately show ?thesis
    by (simp add: cache_ok_def)
qed

lemma cache_ok_lookup:
  "cache_ok h c \<Longrightarrow> map_of c k = Some r \<Longrightarrow>
   r < length h \<and> function_stack h (fst k) (snd k) = Some (h ! r)"
  by (auto simp: cache_ok_def dest!: map_of_SomeD)

lemma cache_ok_injective:
  assumes "cache_ok h c" and "map_of c k = Some r" and "map_of c k' = Some r"
  shows "k = k'"
proof -
  from assms have "(k, r) \<in> set c" "(k', r) \<in> set c" by (auto dest: map_of_SomeD)
  moreover from assms(1) have "inj_on snd (set c)" by (simp add: cache_ok_def distinct_map)
  ultimately have "(k, r) = (k', r)" by (intro inj_onD [of snd "set c"]) simp_all
  then show ?thesis by simp
qed

lemma builder_hit:
  "b < length (memoized w) \<Longrightarrow> map_of (memoized w ! b) (p, f) = Some r \<Longrightarrow>
   getFunctionStackMemoized b p f w = Some (r, w)"
  by (simp add: getFunctionStackMemoized_def memize_call_def)

lemma builder_miss:
  "b < length (memoized w) \<Longrightarrow> map_of (memoized w ! b) (p, f) = None \<Longrightarrow>
   function_stack (heap w) p f = Some xs \<Longrightarrow>
   getFunctionStackMemoized b p f w =
     Some (length (heap w),
       w\<lparr>heap := heap w @ [xs],
         memoized := (memoized w)[b := ((p, f), length (heap w)) # memoized w ! b]\<rparr>)"
  by (simp add: getFunctionStackMemoized_def memize_call_def new_function_stack_def)

lemma builder_cases:
  assumes "getFunctionStackMemoized b p f w = Some (r, w1)"
  obtains (hit) "b < length (memoized w)" "map_of (memoized w ! b) (p, f) = Some r" "w1 = w"
    | (miss) xs where "b < length (memoized w)" "map_of (memoized w ! b) (p, f) = None"
        "function_stack (heap w) p f = Some xs" "r = length (heap w)"
        "w1 = w\<lparr>heap := heap w @ [xs],
               memoized := (memoized w)[b := ((p, f), length (heap w)) # memoized w ! b]\<rparr>"
proof -
  from assms have b: "b < length (memoized w)"
    by (simp add: getFunctionStackMemoized_def split: if_splits)
  show ?thesis
  proof (cases "map_of (memoized w ! b) (p, f)")
    case (Some r')
    from builder_hit [OF b Some] assms have "r' = r" "w1 = w" by simp_all
    with Some b show ?thesis by (intro hit) simp_all
  next
    case None
    show ?thesis
    proof (cases "function_stack (heap w) p f")
      case fs: None
      with assms b \<open>map_of (memoized w ! b) (p, f) = None\<close> have False
        by (simp add: getFunctionStackMemoized_def memize_call_def new_function_stack_def)
      then show ?thesis ..
    next
      case (Some xs)
      from builder_miss [OF b None Some] assms
      have "r = length (heap w)"
        "w1 = w\<lparr>heap := heap w @ [xs],
               memoized := (memoized w)[b := ((p, f), length (heap w)) # memoized w ! b]\<rparr>"
        by simp_all
      with b None Some show ?thesis by (intro miss [of xs]) simp_all
    qed
  qed
qed

lemma builder_call:
  assumes ok: "world_ok w" and b: "b < length (memoized w)" and arg: "stack_arg w p"
  obtains r w1 where
    "getFunctionStackMemoized b p f w = Some (r, w1)"
    "world_ok w1"
    "r < length (heap w1)"
    "heap w1 ! r = (case p of None \<Rightarrow> [] | Some a \<Rightarrow> heap w ! a) @ [f]"
    "map_of (memoized w1 ! b) (p, f) = Some r"
    "length (memoized w1) = length (memoized w)"
    "\<And>k. k \<noteq> (p, f) \<Longrightarrow> map_of (memoized w1 ! b) k = map_of (memoized w ! b) k"
    "length (heap w) \<le> length (heap w1)"
    "\<And>a. a < length (heap w) \<Longrightarrow> heap w1 ! a = heap w ! a"
proof (cases "map_of (memoized w ! b) (p, f)")
  case (Some r)
  from ok b have c: "cache_ok (heap w) (memoized w ! b)"
    by (simp add: world_ok_def)
  from cache_ok_lookup [OF c Some] function_stack_Some [OF ok arg, of f]
  have "r < length (heap w)"
    "heap w ! r = (case p of None \<Rightarrow> [] | Some a \<Rightarrow> heap w ! a) @ [f]"
    by simp_all
  with that [of r w] builder_hit [OF b Some] ok Some show ?thesis by simp
next
  case None
  let ?xs = "(case p of None \<Rightarrow> [] | Some a \<Rightarrow> heap w ! a) @ [f]"
  let ?r = "length (heap w)"
  let ?w1 = "w\<lparr>heap := heap w @ [?xs],
         memoized := (memoized w)[b := ((p, f), ?r) # memoized w ! b]\<rparr>"
  have fs: "function_stack (heap w) p f = Some ?xs"
    using ok arg by (rule function_stack_Some)
  have call: "getFunctionStackMemoized b p f w = Some (?r, ?w1)"
    using b None fs by (rule builder_miss)
  have "cache_ok (heap w @ [?xs]) c" if "c \<in> set ((memoized w)[b := ((p, f), ?r) # memoized w ! b])" for c
  proof -
    from that b consider "c = ((p, f), ?r) # memoized w ! b" | "c \<in> set (memoized w)"
      by (auto dest: set_update_subset_insert [THEN subsetD])
    then show ?thesis
    proof cases
      case 1
      from ok b have "cache_ok (heap w) (memoized w ! b)" by (simp add: world_ok_def)
      then show ?thesis unfolding 1 using None fs by (rule cache_ok_insert)
    next
      case 2
      with ok have "cache_ok (heap w) c" by (simp add: world_ok_def)
      then show ?thesis by (rule cache_ok_grow)
    qed
  qed
  then have ok1: "world_ok ?w1"
    using ok by (simp add: world_ok_def nth_append)
  show ?thesis
    using that [of ?r ?w1] call ok1 b by (simp add: nth_append)
qed

lemma world_ok_init: "world_ok init_world"
  by (simp add: world_ok_def init_world_def EMPTY_ARRAY_def)

lemma install_memoized: "memoized (install api name d w) = memoized w @ [[]]"
  by (simp add: install_def Let_def)

lemma install_heap: "heap (install api name d w) = heap w"
  by (simp add: install_def Let_def)

lemma world_ok_register:
  assumes "world_ok w"
  shows "world_ok (snd (registerFormatType api name settings w))"
proof (cases rule: register_cases [of api name settings w])
  case (threw e)
  with assms show ?thesis by simp
next
  case (rejected x)
  with assms show ?thesis by (simp add: world_ok_def)
next
  case registered
  with assms show ?thesis
    by (auto simp: world_ok_def install_memoized install_heap cache_ok_def)
qed

lemma one_format_eq:
  "one_format =
     \<lparr>rich_text = [(Str ''core/annotation'', (''name'', Str ''core/annotation'') # annotation)],
      console = [], memoized = [[]], heap = [[]],
      hooks = [\<lparr>hookName = ''experimentalRichText'', hook_namespace = Str ''core/annotation'',
                hook_settings = (''name'', Str ''core/annotation'') # annotation,
                hook_builder = 0\<rparr>]\<rparr>"
  by (simp add: one_format_def run_defs annotation_def)

lemma two_formats_eq:
  "two_formats =
     \<lparr>rich_text = [(Str ''core/annotation'', (''name'', Str ''core/annotation'') # annotation),
                   (Str ''core/spellcheck'', (''name'', Str ''core/spellcheck'') # spellcheck)],
      console = [], memoized = [[], []], heap = [[]],
      hooks = [\<lparr>hookName = ''experimentalRichText'', hook_namespace = Str ''core/annotation'',
                hook_settings = (''name'', Str ''core/annotation'') # annotation,
                hook_builder = 0\<rparr>,
               \<lparr>hookName = ''experimentalRichText'', hook_namespace = Str ''core/spellcheck'',
                hook_settings = (''name'', Str ''core/spellcheck'') # spellcheck,
                hook_builder = 1\<rparr>]\<rparr>"
  by (simp add: two_formats_def one_format_eq)
     (simp add: run_defs annotation_def spellcheck_def)

lemma bold_registered_eq:
  "registerFormatType registry_api (Str ''a/b'') bold init_world =
     (Inr (Some ((''name'', Str ''a/b'') # bold)), bold_registered)
   \<and> rich_text bold_registered = [(Str ''a/b'', (''name'', Str ''a/b'') # bold)]"
  by (simp add: bold_registered_def) (simp add: run_defs bold_def)

section \<open>What later steps keep\<close>

lemma world_ok_miss:
  assumes ok: "world_ok w" and b: "b < length (memoized w)"
    and none: "map_of (memoized w ! b) (p, f) = None"
    and fs: "function_stack (heap w) p f = Some xs"
  shows "world_ok (w\<lparr>heap := heap w @ [xs],
           memoized := (memoized w)[b := ((p, f), length (heap w)) # memoized w ! b]\<rparr>)"
proof -
  have "cache_ok (heap w @ [xs]) c"
    if "c \<in> set ((memoized w)[b := ((p, f), length (heap w)) # memoized w ! b])" for c
  proof -
    from that b consider "c = ((p, f), length (heap w)) # memoized w ! b" | "c \<in> set (memoized w)"
      by (auto dest: set_update_subset_insert [THEN subsetD])
    then show ?thesis
    proof cases
      case 1
      from ok b have "cache_ok (heap w) (memoized w ! b)" by (simp add: world_ok_def)
      then show ?thesis unfolding 1 using none fs by (rule cache_ok_insert)
    next
      case 2
      with ok have "cache_ok (heap w) c" by (simp add: world_ok_def)
      then show ?thesis by (rule cache_ok_grow)
    qed
  qed
  then show ?thesis
    using ok by (simp add: world_ok_def nth_append)
qed

lemma builder_world_ok:
  "world_ok w \<Longrightarrow> getFunctionStackMemoized b p f w = Some (r, w1) \<Longrightarrow> world_ok w1"
  by (erule builder_cases) (simp_all add: world_ok_miss)

lemma builder_frame:
  assumes "getFunctionStackMemoized b p f w = Some (r, w1)"
  shows "rich_text w1 = rich_text w" "console w1 = console w" "hooks w1 = hooks w"
    "length (memoized w1) = length (memoized w)" "length (heap w) \<le> length (heap w1)"
    "a < length (heap w) \<Longrightarrow> heap w1 ! a = heap w ! a"
  using assms by (cases rule: builder_cases; simp add: nth_append)+

lemma builder_cache_kept:
  assumes "getFunctionStackMemoized b p f w = Some (r, w1)"
    and "b' < length (memoized w)" and "map_of (memoized w ! b') k = Some r'"
  shows "map_of (memoized w1 ! b') k = Some r'"
  using assms(1)
proof (cases rule: builder_cases)
  case hit
  with assms show ?thesis by simp
next
  case (miss xs)
  show ?thesis
  proof (cases "b' = b")
    case True
    with miss assms have "k \<noteq> (p, f)" by auto
    with True miss assms show ?thesis by simp
  next
    case False
    with miss assms show ?thesis by simp
  qed
qed

lemma install_hooks:
  "hooks (install api name d w) =
     (if truthy (get d ''__experimentalCreatePrepareEditableTree'')
      then hooks w @ [\<lparr>hookName = ''experimentalRichText'', hook_namespace = name,
                        hook_settings = d, hook_builder = length (memoized w)\<rparr>]
      else hooks w)"
  by (simp add: install_def Let_def)

lemma hooks_ok_install: "hooks_ok w \<Longrightarrow> hooks_ok (install api name d w)"
  by (auto simp: hooks_ok_def install_hooks install_memoized)

lemma step_world_ok: "world_ok w \<Longrightarrow> world_ok (step api e w)"
proof (cases e)
  case (Register name settings)
  assume "world_ok w"
  then show ?thesis unfolding Register step.simps by (rule world_ok_register)
next
  case (Build b p f)
  assume "world_ok w"
  then show ?thesis
    by (auto simp: Build split: option.splits dest: builder_world_ok)
qed

lemma step_Build_cases:
  obtains (none) "step api (Build b p f) w = w"
    | (some) r w1 where "getFunctionStackMemoized b p f w = Some (r, w1)"
        "step api (Build b p f) w = w1"
proof (cases "getFunctionStackMemoized b p f w")
  case None
  then show ?thesis using none by simp
next
  case (Some rw)
  obtain r w1 where "rw = (r, w1)" by (cases rw)
  with Some show ?thesis using some [of r w1] by simp
qed

lemma step_hooks_ok: "hooks_ok w \<Longrightarrow> hooks_ok (step api e w)"
proof (cases e)
  case (Register name settings)
  assume ok: "hooks_ok w"
  show ?thesis
    by (cases rule: register_cases [of api name settings w])
       (use ok in \<open>simp_all add: Register hooks_ok_install\<close>, simp_all add: hooks_ok_def)
next
  case (Build b p f)
  assume ok: "hooks_ok w"
  show ?thesis
  proof (cases rule: step_Build_cases [of api b p f w])
    case none
    with ok show ?thesis by (simp add: Build del: step.simps)
  next
    case (some r w1)
    from builder_frame(3,4) [OF some(1)] ok show ?thesis
      by (simp add: Build some(2) hooks_ok_def del: step.simps)
  qed
qed

lemma step_memoized:
  "b < length (memoized w) \<Longrightarrow> b < length (memoized (step api e w))"
proof (cases e)
  case (Register name settings)
  assume "b < length (memoized w)"
  then show ?thesis
    by (cases rule: register_cases [of api name settings w])
       (simp_all add: Register install_memoized)
next
  case (Build b' p f)
  assume "b < length (memoized w)"
  then show ?thesis
    by (auto simp: Build split: option.splits dest: builder_frame)
qed

lemma step_cache_kept:
  "b < length (memoized w) \<Longrightarrow> map_of (memoized w ! b) k = Some r \<Longrightarrow>
   map_of (memoized (step api e w) ! b) k = Some r"
proof (cases e)
  case (Register name settings)
  assume "b < length (memoized w)" "map_of (memoized w ! b) k = Some r"
  then show ?thesis
    by (cases rule: register_cases [of api name settings w])
       (simp_all add: Register install_memoized nth_append)
next
  case (Build b' p f)
  assume "b < length (memoized w)" "map_of (memoized w ! b) k = Some r"
  then show ?thesis
    by (auto simp: Build split: option.splits dest: builder_cache_kept)
qed

lemma step_heap_kept:
  "a < length (heap w) \<Longrightarrow> a < length (heap (step api e w)) \<and> heap (step api e w) ! a = heap w ! a"
proof (cases e)
  case (Register name settings)
  assume "a < length (heap w)"
  then show ?thesis
    by (cases rule: register_cases [of api name settings w])
       (simp_all add: Register install_heap)
next
  case (Build b' p f)
  assume a: "a < length (heap w)"
  show ?thesis
  proof (cases rule: step_Build_cases [of api b' p f w])
    case none
    with a show ?thesis by (simp add: Build del: step.simps)
  next
    case (some r w1)
    from builder_frame(5) [OF some(1)] builder_frame(6) [OF some(1) a] a show ?thesis
      by (simp add: Build some(2) del: step.simps)
  qed
qed

lemma later_Nil: "later api [] w = w"
  by (simp add: later_def)

lemma later_Cons: "later api (e # es) w = later api es (step api e w)"
  by (simp add: later_def)

lemma later_world_ok: "world_ok w \<Longrightarrow> world_ok (later api es w)"
  by (induction es arbitrary: w) (simp_all add: later_Nil later_Cons step_world_ok)

lemma later_hooks_ok: "hooks_ok w \<Longrightarrow> hooks_ok (later api es w)"
  by (induction es arbitrary: w) (simp_all add: later_Nil later_Cons step_hooks_ok)

lemma later_memoized: "b < length (memoized w) \<Longrightarrow> b < length (memoized (later api es w))"
  by (induction es arbitrary: w) (simp_all add: later_Nil later_Cons step_memoized)

lemma later_cache_kept:
  "b < length (memoized w) \<Longrightarrow> map_of (memoized w ! b) k = Some r \<Longrightarrow>
   map_of (memoized (later api es w) ! b) k = Some r"
  by (induction es arbitrary: w)
     (simp_all add: later_Nil later_Cons step_memoized step_cache_kept)

lemma later_heap_kept:
  "a < length (heap w) \<Longrightarrow>
   a < length (heap (later api es w)) \<and> heap (later api es w) ! a = heap w ! a"
proof (induction es arbitrary: w)
  case Nil
  then show ?case by (simp add: later_Nil)
next
  case (Cons e es)
  from step_heap_kept [OF Cons.prems, of api e]
  have "a < length (heap (step api e w))" "heap (step api e w) ! a = heap w ! a" by simp_all
  with Cons.IH [of "step api e w"] show ?case by (simp add: later_Cons)
qed

lemma hooks_ok_init: "hooks_ok init_world"
  by (simp add: hooks_ok_def init_world_def)

section \<open>What the registry keeps\<close>

lemma get_spread_plain:
  assumes "\<not> has_property settings ''name''"
  shows "get (spread [(''name'', v)] settings) ''name'' = v"
proof -
  from assms have "''name'' \<notin> fst ` set (rev settings)"
    by (simp add: has_property_def map_of_eq_None_iff)
  then have "map_of (rev settings) ''name'' = None"
    by (simp add: map_of_eq_None_iff)
  then show ?thesis
    by (simp add: get_def map_of_spread map_add_def)
qed

lemma console_update_eq: "w\<lparr>console := a\<rparr> = w\<lparr>console := b\<rparr> \<longleftrightarrow> a = b"
proof
  assume "w\<lparr>console := a\<rparr> = w\<lparr>console := b\<rparr>"
  then have "console (w\<lparr>console := a\<rparr>) = console (w\<lparr>console := b\<rparr>)" by (rule arg_cong)
  then show "a = b" by simp
qed simp

lemma register_rejected_iff:
  "registerFormatType api name settings w = (Inr None, w\<lparr>console := console w @ [x]\<rparr>) \<longleftrightarrow>
   validate api (rich_text w) (spread [(''name'', name)] settings) = Inr (Some x)"
  by (cases rule: register_cases [of api name settings w]) (simp_all add: console_update_eq)

lemma registry_filter:
  "distinct (map fst al) \<Longrightarrow> map_of al k = Some v \<Longrightarrow> filter (\<lambda>e. fst e = k) al = [(k, v)]"
proof (induction al)
  case Nil
  then show ?case by simp
next
  case (Cons e al)
  obtain k' v' where e: "e = (k', v')" by (cases e)
  show ?case
  proof (cases "k' = k")
    case True
    with Cons.prems e have "v' = v" "k \<notin> fst ` set al" by auto
    then have "filter (\<lambda>e. fst e = k) al = []"
      by (auto simp: filter_empty_conv)
    with True e \<open>v' = v\<close> show ?thesis by simp
  next
    case False
    with Cons e show ?thesis by simp
  qed
qed

lemma step_registry_kept:
  assumes "map_of (rich_text w) n = Some d"
  shows "map_of (rich_text (step registry_api e w)) n = Some d"
proof (cases e)
  case (Register name settings)
  show ?thesis
  proof (cases rule: register_cases [of registry_api name settings w])
    case (threw x)
    with assms show ?thesis by (simp add: Register)
  next
    case (rejected x)
    with assms show ?thesis by (simp add: Register)
  next
    case registered
    let ?d = "spread [(''name'', name)] settings"
    from registered(2) have "rule3 registry_api (rich_text w) ?d"
      by (simp add: validate_passes_iff)
    then have "map_of (rich_text w) (get ?d ''name'') = None"
      by (simp add: rule3_def registry_api_def registry_getFormatType_def)
    with assms have "get ?d ''name'' \<noteq> n" by auto
    with assms registered(1) show ?thesis
      by (simp add: Register install_rich_text registry_api_def registry_addFormatTypes_def
          AList.update_conv')
  qed
next
  case (Build b p f)
  show ?thesis
  proof (cases rule: step_Build_cases [of registry_api b p f w])
    case none
    with assms show ?thesis by (simp add: Build del: step.simps)
  next
    case (some r w1)
    from builder_frame(1) [OF some(1)] assms show ?thesis
      by (simp add: Build some(2) del: step.simps)
  qed
qed

lemma step_registry_distinct:
  assumes "distinct (map fst (rich_text w))"
  shows "distinct (map fst (rich_text (step registry_api e w)))"
proof (cases e)
  case (Register name settings)
  show ?thesis
    by (cases rule: register_cases [of registry_api name settings w])
       (use assms in \<open>simp_all add: Register install_rich_text registry_api_def
          registry_addFormatTypes_def AList.distinct_update\<close>)
next
  case (Build b p f)
  show ?thesis
  proof (cases rule: step_Build_cases [of registry_api b p f w])
    case none
    with assms show ?thesis by (simp add: Build del: step.simps)
  next
    case (some r w1)
    from builder_frame(1) [OF some(1)] assms show ?thesis
      by (simp add: Build some(2) del: step.simps)
  qed
qed

lemma later_registry_kept:
  "map_of (rich_text w) n = Some d \<Longrightarrow> map_of (rich_text (later registry_api es w)) n = Some d"
  by (induction es arbitrary: w) (simp_all add: later_Nil later_Cons step_registry_kept)

lemma later_registry_distinct:
  "distinct (map fst (rich_text w)) \<Longrightarrow> distinct (map fst (rich_text (later registry_api es w)))"
  by (induction es arbitrary: w) (simp_all add: later_Nil later_Cons step_registry_distinct)

lemma validate_ClassNameInvalid_iff:
  "validate api st d = Inr (Some ClassNameInvalid) \<longleftrightarrow>
      (\<exists>n. get d ''name'' = Str n \<and> n \<in> lang name_re)
    \<and> getFormatType api st (get d ''name'') = None
    \<and> (\<exists>t. get d ''tagName'' = Str t \<and> t \<noteq> [])
    \<and> (\<exists>c. get d ''className'' = Str c \<and> c \<noteq> [] \<and> c \<notin> lang class_re)"
proof -
  have "validate api st d = Inr (Some ClassNameInvalid) \<longleftrightarrow>
      rule1 d \<and> rule2 d \<and> rule3 api st d \<and> rule4 d \<and> rule5 d \<and> \<not> rule6 d"
    by (simp add: validate_follows_rules first_failure_ClassNameInvalid)
  also have "\<dots> \<longleftrightarrow>
      (\<exists>n. get d ''name'' = Str n \<and> n \<in> lang name_re)
    \<and> getFormatType api st (get d ''name'') = None
    \<and> (\<exists>t. get d ''tagName'' = Str t \<and> t \<noteq> [])
    \<and> (\<exists>c. get d ''className'' = Str c \<and> c \<noteq> [] \<and> c \<notin> lang class_re)"
    by (auto simp: rule1_def rule2_def rule3_def rule4_def rule5_def rule6_def)
  finally show ?thesis .
qed

section \<open>The claims\<close>

text \<open>
  C1. For every call \<open>registerFormatType(name, settings)\<close> where the settings have no
  \<open>name\<close> of their own, \<open>name\<close> matches the namespace/slug pattern and is not yet in the
  registry, \<open>tagName\<close> is a non-empty string, \<open>className\<close> is \<open>null\<close> with no bare-element
  handler registered for the tag, or a class name that matches its pattern and that no
  registered descriptor claims, \<open>title\<close> is a non-empty string, and \<open>keywords\<close>, if
  present, is an array of at most 3 entries: the call returns the descriptor, which is
  the settings with \<open>name\<close> put in front, the store receives \<open>addFormatTypes\<close> of that
  same descriptor, and nothing is logged. The store is any store.
\<close>

theorem register_valid:
  assumes wf: "distinct (map fst settings)" "\<not> has_property settings ''name''"
    and name: "n \<in> lang name_re" "getFormatType api (rich_text w) (Str n) = None"
    and tag: "get settings ''tagName'' = Str t" "t \<noteq> []"
    and cls: "get settings ''className'' = Null
                \<and> getFormatTypeForBareElement api (rich_text w) (Str t) = None
            \<or> (\<exists>c. get settings ''className'' = Str c \<and> c \<in> lang class_re
                   \<and> getFormatTypeForClassName api (rich_text w) (Str c) = None)"
    and title: "get settings ''title'' = Str ti" "ti \<noteq> []"
    and kw: "\<not> has_property settings ''keywords''
            \<or> (\<exists>ks. get settings ''keywords'' = Arr ks \<and> length ks \<le> 3)"
  shows "fst (registerFormatType api (Str n) settings w) = Inr (Some ((''name'', Str n) # settings))
       \<and> rich_text (snd (registerFormatType api (Str n) settings w)) =
           addFormatTypes api ((''name'', Str n) # settings) (rich_text w)
       \<and> console (snd (registerFormatType api (Str n) settings w)) = console w"
proof -
  let ?d = "(''name'', Str n) # settings"
  have d: "spread [(''name'', Str n)] settings = ?d"
    using wf by (rule spread_without_name)
  have kw': "keywords_exceed ?d = Inr False"
    using kw by (auto simp: keywords_exceed_def has_property_Cons get_Cons)
  have "has_property settings ''title''"
    using title by (auto intro: get_has_property)
  then have "validate api (rich_text w) ?d = Inr None"
    using validate_valid [of ?d n api "rich_text w" t] name tag cls title kw'
    by (simp add: get_Cons has_property_Cons)
  then show ?thesis
    by (simp add: registerFormatType_def Let_def d install_rich_text install_console)
qed

theorem register_valid_witness:
  "fst (registerFormatType registry_api (Str ''my-plugin/highlight'') highlight init_world) =
     Inr (Some ((''name'', Str ''my-plugin/highlight'') # highlight))
   \<and> rich_text (snd (registerFormatType registry_api (Str ''my-plugin/highlight'') highlight init_world)) =
     [(Str ''my-plugin/highlight'', (''name'', Str ''my-plugin/highlight'') # highlight)]
   \<and> console (snd (registerFormatType registry_api (Str ''my-plugin/highlight'') highlight init_world)) = []"
proof -
  have wf: "distinct (map fst highlight)" "\<not> has_property highlight ''name''"
    by (simp_all add: highlight_def has_property_def)
  have name: "''my-plugin/highlight'' \<in> lang name_re"
    unfolding matches_iff [symmetric] by (simp add: name_re_def in_class_def in_range_def)
  have fresh: "getFormatType registry_api (rich_text init_world) (Str ''my-plugin/highlight'') = None"
    by (simp add: registry_api_def registry_getFormatType_def init_world_def)
  have tag: "get highlight ''tagName'' = Str ''mark''" "''mark'' \<noteq> []"
    by (simp_all add: highlight_def get_def)
  have "''my-highlight'' \<in> lang class_re"
    unfolding matches_iff [symmetric] by (simp add: class_re_def Plus_def in_class_def in_range_def)
  then have cls: "get highlight ''className'' = Null
        \<and> getFormatTypeForBareElement registry_api (rich_text init_world) (Str ''mark'') = None
      \<or> (\<exists>c. get highlight ''className'' = Str c \<and> c \<in> lang class_re
           \<and> getFormatTypeForClassName registry_api (rich_text init_world) (Str c) = None)"
    by (simp add: highlight_def get_def registry_api_def registry_getFormatTypeForClassName_def
        init_world_def)
  have title: "get highlight ''title'' = Str ''Highlight''" "''Highlight'' \<noteq> []"
    by (simp_all add: highlight_def get_def)
  have kw: "\<not> has_property highlight ''keywords''
      \<or> (\<exists>ks. get highlight ''keywords'' = Arr ks \<and> length ks \<le> 3)"
    by (simp add: highlight_def has_property_def)
  show ?thesis
    using register_valid [OF wf name fresh tag cls title kw]
    by (simp add: registry_api_def registry_addFormatTypes_def init_world_def get_def)
qed

text \<open>
  C2. The claim is that a failing rule always ends in a logged diagnostic and
  \<open>undefined\<close>, never in an exception. The call
  \<open>registerFormatType('a/b', { tagName: 'b', className: null, title: 5, keywords: null })\<close>
  breaks rule 11 (the title is not a string), and line 132 throws a TypeError reading
  \<open>settings.keywords.length\<close> before line 139 is reached: nothing is logged and nothing is
  returned. Everywhere else the checks do follow the rules in their order; that is
  \<open>validate_follows_rules\<close>.
\<close>

theorem unreadable_keywords_throw:
  "registerFormatType registry_api (Str ''a/b'')
     [(''tagName'', Str ''b''), (''className'', Null), (''title'', Num 5), (''keywords'', Null)]
     init_world = (Inl TypeError, init_world)
   \<and> \<not> rule11 (spread [(''name'', Str ''a/b'')]
        [(''tagName'', Str ''b''), (''className'', Null), (''title'', Num 5), (''keywords'', Null)])"
  by (simp add: run_defs rule11_def)

text \<open>
  C3. For every descriptor whose name is a string that does not match
  \<open>^[a-z][a-z0-9-]*/[a-z][a-z0-9-]*$\<close>, \<open>registerFormatType\<close> returns \<open>undefined\<close> and
  the registry is left unchanged: nothing is written to the store, the only effect is
  the diagnostic on the console. The descriptor is the settings merged with the \<open>name\<close>
  argument; the store is any store.
\<close>

theorem invalid_name_rejected:
  assumes "get (spread [(''name'', name)] settings) ''name'' = Str s"
    and "s \<notin> lang name_re"
  shows "registerFormatType api name settings w =
           (Inr None, w\<lparr>console := console w @ [NameInvalid]\<rparr>)
       \<and> rich_text (snd (registerFormatType api name settings w)) = rich_text w"
  using assms by (simp add: registerFormatType_def validate_def RegExp_test_Str)

theorem invalid_name_rejected_witness:
  "registerFormatType registry_api (Str ''Highlight'') highlight init_world =
     (Inr None, init_world\<lparr>console := console init_world @ [NameInvalid]\<rparr>)
   \<and> rich_text (snd (registerFormatType registry_api (Str ''Highlight'') highlight init_world)) =
       rich_text init_world"
proof -
  have "get (spread [(''name'', Str ''Highlight'')] highlight) ''name'' = Str ''Highlight''"
    by (simp add: spread_def highlight_def get_def)
  moreover have "''Highlight'' \<notin> lang name_re"
    unfolding matches_iff [symmetric] by (simp add: name_re_def in_class_def in_range_def)
  ultimately show ?thesis
    by (rule invalid_name_rejected)
qed

text \<open>
  C4. With the registry as the specification describes it, each name stored once: if
  \<open>registerFormatType(name, settings1)\<close> has returned a descriptor, the settings of this
  call and of the next having no \<open>name\<close> of their own, then, whatever registrations and
  builder calls have come in between, \<open>registerFormatType(name, settings2)\<close> logs that the
  format is already registered, returns \<open>undefined\<close> and changes nothing else, and the
  registry holds the first descriptor, and only it, under that name.
\<close>

theorem duplicate_name_rejected:
  assumes keys: "distinct (map fst (rich_text w))"
    and first: "registerFormatType registry_api name settings1 w = (Inr (Some d), w1)"
    and plain: "\<not> has_property settings1 ''name''" "\<not> has_property settings2 ''name''"
    and w2: "w2 = later registry_api events w1"
  shows "registerFormatType registry_api name settings2 w2 =
           (Inr None, w2\<lparr>console := console w2 @ [AlreadyRegistered name]\<rparr>)
       \<and> getFormatType registry_api (rich_text w2) name = Some d
       \<and> filter (\<lambda>e. fst e = name) (rich_text w2) = [(name, d)]"
proof -
  from first have d: "d = spread [(''name'', name)] settings1"
    and w1: "w1 = install registry_api name d w"
    and v: "validate registry_api (rich_text w) d = Inr None"
    by (cases rule: register_cases [of registry_api name settings1 w]; simp)+
  have dn: "get d ''name'' = name"
    unfolding d using plain(1) by (rule get_spread_plain)
  have "map_of (rich_text w1) name = Some d"
    by (simp add: w1 install_rich_text registry_api_def registry_addFormatTypes_def
        AList.update_conv' dn)
  then have stored: "map_of (rich_text w2) name = Some d"
    unfolding w2 by (rule later_registry_kept)
  have "distinct (map fst (rich_text w1))"
    using keys by (simp add: w1 install_rich_text registry_api_def registry_addFormatTypes_def
        AList.distinct_update)
  then have keys2: "distinct (map fst (rich_text w2))"
    unfolding w2 by (rule later_registry_distinct)
  let ?d2 = "spread [(''name'', name)] settings2"
  have dn2: "get ?d2 ''name'' = name"
    using plain(2) by (rule get_spread_plain)
  from v have "rule1 d" "rule2 d" by (simp_all add: validate_passes_iff)
  then have "rule1 ?d2" "rule2 ?d2" "\<not> rule3 registry_api (rich_text w2) ?d2"
    using dn dn2 stored
    by (simp_all add: rule1_def rule2_def rule3_def registry_api_def registry_getFormatType_def)
  then have "validate registry_api (rich_text w2) ?d2 = Inr (Some (AlreadyRegistered name))"
    by (simp add: validate_follows_rules first_failure_def dn2)
  then show ?thesis
    using stored registry_filter [OF keys2 stored]
    by (simp add: register_by_validate registry_api_def registry_getFormatType_def)
qed

theorem duplicate_name_rejected_witness:
  "registerFormatType registry_api (Str ''a/b'') highlight
     (later registry_api [Register (Str ''c/d'') italic] bold_registered) =
     (Inr None, (later registry_api [Register (Str ''c/d'') italic] bold_registered)
        \<lparr>console := console (later registry_api [Register (Str ''c/d'') italic] bold_registered)
           @ [AlreadyRegistered (Str ''a/b'')]\<rparr>)
   \<and> getFormatType registry_api
        (rich_text (later registry_api [Register (Str ''c/d'') italic] bold_registered)) (Str ''a/b'') =
       Some ((''name'', Str ''a/b'') # bold)"
proof -
  have keys: "distinct (map fst (rich_text init_world))"
    by (simp add: init_world_def)
  have first: "registerFormatType registry_api (Str ''a/b'') bold init_world =
      (Inr (Some ((''name'', Str ''a/b'') # bold)), bold_registered)"
    using bold_registered_eq by simp
  have plain: "\<not> has_property bold ''name''" "\<not> has_property highlight ''name''"
    by (simp_all add: has_property_def bold_def highlight_def)
  show ?thesis
    using duplicate_name_rejected [OF keys first plain refl, of "[Register (Str ''c/d'') italic]"]
    by simp
qed

text \<open>
  C5. With the registry as the specification describes it: for every descriptor whose
  \<open>className\<close> is \<open>null\<close>, if some registered descriptor has the same \<open>tagName\<close> and
  \<open>className\<close> \<open>null\<close>, the call returns \<open>undefined\<close> and the registry is unchanged; and
  if every registered descriptor has a different \<open>tagName\<close> or a \<open>className\<close> other than
  \<open>null\<close>, the bare-element lookup finds nothing, the call is not rejected with the
  bare-element diagnostic, and it returns the descriptor when the rules about the name,
  the tag, the title and the keywords hold as well.
\<close>

theorem bare_element_conflict:
  assumes d: "d = spread [(''name'', name)] settings"
    and none: "get d ''className'' = Null"
  shows "((\<exists>e \<in> snd ` set (rich_text w).
             get e ''className'' = Null \<and> get e ''tagName'' = get d ''tagName'') \<longrightarrow>
          fst (registerFormatType registry_api name settings w) = Inr None
          \<and> rich_text (snd (registerFormatType registry_api name settings w)) = rich_text w)
       \<and> ((\<forall>e \<in> snd ` set (rich_text w).
             get e ''tagName'' \<noteq> get d ''tagName'' \<or> get e ''className'' \<noteq> Null) \<longrightarrow>
          getFormatTypeForBareElement registry_api (rich_text w) (get d ''tagName'') = None
          \<and> (\<forall>x y. validate registry_api (rich_text w) d \<noteq> Inr (Some (BareElementTaken x y)))
          \<and> (rule1 d \<and> rule2 d \<and> rule3 registry_api (rich_text w) d \<and> rule4 d \<and> rule9 d
               \<and> rule10 d \<and> rule11 d \<and> \<not> keywords_unreadable d \<longrightarrow>
             fst (registerFormatType registry_api name settings w) = Inr (Some d)))"
proof (intro conjI impI)
  assume "\<exists>e \<in> snd ` set (rich_text w).
             get e ''className'' = Null \<and> get e ''tagName'' = get d ''tagName''"
  then have "registry_getFormatTypeForBareElement (rich_text w) (get d ''tagName'') \<noteq> None"
    unfolding registry_getFormatTypeForBareElement_def find_None_iff by auto
  then have "\<not> rule7 registry_api (rich_text w) d"
    using none by (simp add: rule7_def registry_api_def)
  then obtain x where
    "registerFormatType registry_api name settings w = (Inr None, w\<lparr>console := console w @ [x]\<rparr>)"
    using register_rule_broken [OF _ d, of registry_api w] by blast
  then show "fst (registerFormatType registry_api name settings w) = Inr None"
    "rich_text (snd (registerFormatType registry_api name settings w)) = rich_text w"
    by simp_all
next
  assume free: "\<forall>e \<in> snd ` set (rich_text w).
             get e ''tagName'' \<noteq> get d ''tagName'' \<or> get e ''className'' \<noteq> Null"
  then have "registry_getFormatTypeForBareElement (rich_text w) (get d ''tagName'') = None"
    unfolding registry_getFormatTypeForBareElement_def find_None_iff by auto
  then show g: "getFormatTypeForBareElement registry_api (rich_text w) (get d ''tagName'') = None"
    by (simp add: registry_api_def)
  then have "rule7 registry_api (rich_text w) d"
    by (simp add: rule7_def)
  then show "\<forall>x y. validate registry_api (rich_text w) d \<noteq> Inr (Some (BareElementTaken x y))"
    by (auto simp: validate_follows_rules first_failure_def split: if_splits)
  assume "rule1 d \<and> rule2 d \<and> rule3 registry_api (rich_text w) d \<and> rule4 d \<and> rule9 d
               \<and> rule10 d \<and> rule11 d \<and> \<not> keywords_unreadable d"
  moreover have "rule5 d" "rule6 d" "rule8 registry_api (rich_text w) d"
    using none by (simp_all add: rule5_def rule6_def rule8_def)
  ultimately have "validate registry_api (rich_text w) d = Inr None"
    using \<open>rule7 registry_api (rich_text w) d\<close> by (simp add: validate_passes_iff)
  then show "fst (registerFormatType registry_api name settings w) = Inr (Some d)"
    by (simp add: register_by_validate d [symmetric])
qed

theorem bare_element_conflict_witness:
  "fst (registerFormatType registry_api (Str ''c/d'') bold bold_registered) = Inr None
   \<and> getFormatTypeForBareElement registry_api (rich_text bold_registered) (Str ''em'') = None
   \<and> fst (registerFormatType registry_api (Str ''c/d'') italic bold_registered) =
       Inr (Some ((''name'', Str ''c/d'') # italic))"
proof -
  have name: "''c/d'' \<in> lang name_re"
    unfolding matches_iff [symmetric] by (simp add: name_re_def in_class_def in_range_def)
  have reg: "rich_text bold_registered = [(Str ''a/b'', (''name'', Str ''a/b'') # bold)]"
    using bold_registered_eq by simp
  have d1: "(''name'', Str ''c/d'') # bold = spread [(''name'', Str ''c/d'')] bold"
    and d2: "(''name'', Str ''c/d'') # italic = spread [(''name'', Str ''c/d'')] italic"
    by (simp_all add: spread_def bold_def italic_def)
  have n1: "get ((''name'', Str ''c/d'') # bold) ''className'' = Null"
    and n2: "get ((''name'', Str ''c/d'') # italic) ''className'' = Null"
    by (simp_all add: get_def bold_def italic_def)
  have taken: "\<exists>e \<in> snd ` set (rich_text bold_registered).
      get e ''className'' = Null \<and> get e ''tagName'' = get ((''name'', Str ''c/d'') # bold) ''tagName''"
    by (simp add: reg get_def bold_def)
  have free: "\<forall>e \<in> snd ` set (rich_text bold_registered).
      get e ''tagName'' \<noteq> get ((''name'', Str ''c/d'') # italic) ''tagName'' \<or> get e ''className'' \<noteq> Null"
    by (simp add: reg get_def bold_def italic_def)
  have tag: "get ((''name'', Str ''c/d'') # italic) ''tagName'' = Str ''em''"
    by (simp add: get_def italic_def)
  have rest: "rule1 ((''name'', Str ''c/d'') # italic)"
    "rule2 ((''name'', Str ''c/d'') # italic)"
    "rule3 registry_api (rich_text bold_registered) ((''name'', Str ''c/d'') # italic)"
    "rule4 ((''name'', Str ''c/d'') # italic)"
    "rule9 ((''name'', Str ''c/d'') # italic)"
    "rule10 ((''name'', Str ''c/d'') # italic)"
    "rule11 ((''name'', Str ''c/d'') # italic)"
    "\<not> keywords_unreadable ((''name'', Str ''c/d'') # italic)"
    using name
    by (simp_all add: rule1_def rule2_def rule3_def rule4_def rule9_def rule10_def rule11_def
        keywords_unreadable_def reg italic_def get_def has_property_def registry_api_def
        registry_getFormatType_def)
  show ?thesis
    using bare_element_conflict [OF d1 n1, of bold_registered]
      bare_element_conflict [OF d2 n2, of bold_registered] taken free tag rest
    by simp
qed

text \<open>
  C6. For every call, \<open>d\<close> being the settings merged with the name: the call ends with the
  class-name diagnostic and \<open>undefined\<close> exactly when the checks before it pass and
  \<open>className\<close> is a non-empty string outside the language of
  \<open>^[_a-zA-Z]+[a-zA-Z0-9-]*$\<close>, so the rule rejects real strings only, never \<open>null\<close>.
  \<open>1abc\<close> (leading digit) is outside that language and \<open>a-1\<close> is in it. A descriptor
  whose \<open>className\<close> is \<open>1abc\<close> is rejected: the call returns \<open>undefined\<close> and the registry
  is unchanged, and the diagnostic is the class-name one when the rules about the name
  and the tag hold. A descriptor whose \<open>className\<close> is \<open>a-1\<close> is never rejected by this
  check, and is registered when the other rules hold.
\<close>

theorem class_name_pattern:
  assumes d: "d = spread [(''name'', name)] settings"
  shows "(registerFormatType api name settings w =
            (Inr None, w\<lparr>console := console w @ [ClassNameInvalid]\<rparr>) \<longleftrightarrow>
          (\<exists>n. get d ''name'' = Str n \<and> n \<in> lang name_re)
        \<and> getFormatType api (rich_text w) (get d ''name'') = None
        \<and> (\<exists>t. get d ''tagName'' = Str t \<and> t \<noteq> [])
        \<and> (\<exists>c. get d ''className'' = Str c \<and> c \<noteq> [] \<and> c \<notin> lang class_re))
   \<and> ''1abc'' \<notin> lang class_re \<and> ''a-1'' \<in> lang class_re
   \<and> (get d ''className'' = Str ''1abc'' \<longrightarrow>
        fst (registerFormatType api name settings w) = Inr None
        \<and> rich_text (snd (registerFormatType api name settings w)) = rich_text w)
   \<and> (get d ''className'' = Str ''1abc'' \<and> rule1 d \<and> rule2 d \<and> rule3 api (rich_text w) d \<and> rule4 d \<longrightarrow>
        registerFormatType api name settings w =
          (Inr None, w\<lparr>console := console w @ [ClassNameInvalid]\<rparr>))
   \<and> (get d ''className'' = Str ''a-1'' \<longrightarrow>
        registerFormatType api name settings w \<noteq>
          (Inr None, w\<lparr>console := console w @ [ClassNameInvalid]\<rparr>))
   \<and> (get d ''className'' = Str ''a-1'' \<and> rule1 d \<and> rule2 d \<and> rule3 api (rich_text w) d \<and> rule4 d
        \<and> rule8 api (rich_text w) d \<and> rule9 d \<and> rule10 d \<and> rule11 d \<and> \<not> keywords_unreadable d \<longrightarrow>
        fst (registerFormatType api name settings w) = Inr (Some d))"
proof -
  have iff: "registerFormatType api name settings w =
            (Inr None, w\<lparr>console := console w @ [ClassNameInvalid]\<rparr>) \<longleftrightarrow>
          (\<exists>n. get d ''name'' = Str n \<and> n \<in> lang name_re)
        \<and> getFormatType api (rich_text w) (get d ''name'') = None
        \<and> (\<exists>t. get d ''tagName'' = Str t \<and> t \<noteq> [])
        \<and> (\<exists>c. get d ''className'' = Str c \<and> c \<noteq> [] \<and> c \<notin> lang class_re)"
    unfolding register_rejected_iff d [symmetric] by (rule validate_ClassNameInvalid_iff)
  have out: "''1abc'' \<notin> lang class_re"
    unfolding matches_iff [symmetric] by (simp add: class_re_def Plus_def in_class_def in_range_def)
  have inside: "''a-1'' \<in> lang class_re"
    unfolding matches_iff [symmetric] by (simp add: class_re_def Plus_def in_class_def in_range_def)
  have rejected: "fst (registerFormatType api name settings w) = Inr None
        \<and> rich_text (snd (registerFormatType api name settings w)) = rich_text w"
    if "get d ''className'' = Str ''1abc''"
  proof -
    from that out have "\<not> rule6 d" by (simp add: rule6_def)
    then obtain x where
      "registerFormatType api name settings w = (Inr None, w\<lparr>console := console w @ [x]\<rparr>)"
      using register_rule_broken [OF _ d, of api w] by blast
    then show ?thesis by simp
  qed
  have by_this: "registerFormatType api name settings w =
          (Inr None, w\<lparr>console := console w @ [ClassNameInvalid]\<rparr>)"
    if "get d ''className'' = Str ''1abc'' \<and> rule1 d \<and> rule2 d \<and> rule3 api (rich_text w) d \<and> rule4 d"
    using that out unfolding iff
    by (auto simp: rule2_def rule3_def rule4_def)
  have not_this: "registerFormatType api name settings w \<noteq>
          (Inr None, w\<lparr>console := console w @ [ClassNameInvalid]\<rparr>)"
    if "get d ''className'' = Str ''a-1''"
    using that inside unfolding iff by simp
  have accepted: "fst (registerFormatType api name settings w) = Inr (Some d)"
    if *: "get d ''className'' = Str ''a-1'' \<and> rule1 d \<and> rule2 d \<and> rule3 api (rich_text w) d \<and> rule4 d
        \<and> rule8 api (rich_text w) d \<and> rule9 d \<and> rule10 d \<and> rule11 d \<and> \<not> keywords_unreadable d"
  proof -
    from * inside have "rule5 d" "rule6 d" "rule7 api (rich_text w) d"
      by (simp_all add: rule5_def rule6_def rule7_def)
    with * have "validate api (rich_text w) d = Inr None"
      by (simp add: validate_passes_iff)
    then show ?thesis by (simp add: register_by_validate d [symmetric])
  qed
  from iff out inside rejected by_this not_this accepted show ?thesis by blast
qed

theorem class_name_pattern_witness:
  "registerFormatType registry_api (Str ''a/b'') digit_class init_world =
     (Inr None, init_world\<lparr>console := console init_world @ [ClassNameInvalid]\<rparr>)
   \<and> fst (registerFormatType registry_api (Str ''a/b'') hyphen_class init_world) =
       Inr (Some ((''name'', Str ''a/b'') # hyphen_class))"
proof -
  have name: "''a/b'' \<in> lang name_re"
    unfolding matches_iff [symmetric] by (simp add: name_re_def in_class_def in_range_def)
  have d1: "(''name'', Str ''a/b'') # digit_class = spread [(''name'', Str ''a/b'')] digit_class"
    and d2: "(''name'', Str ''a/b'') # hyphen_class = spread [(''name'', Str ''a/b'')] hyphen_class"
    by (simp_all add: spread_def digit_class_def hyphen_class_def)
  have digit: "get ((''name'', Str ''a/b'') # digit_class) ''className'' = Str ''1abc''"
    "rule1 ((''name'', Str ''a/b'') # digit_class)"
    "rule2 ((''name'', Str ''a/b'') # digit_class)"
    "rule3 registry_api (rich_text init_world) ((''name'', Str ''a/b'') # digit_class)"
    "rule4 ((''name'', Str ''a/b'') # digit_class)"
    using name
    by (simp_all add: rule1_def rule2_def rule3_def rule4_def digit_class_def get_def
        registry_api_def registry_getFormatType_def init_world_def)
  have hyphen: "get ((''name'', Str ''a/b'') # hyphen_class) ''className'' = Str ''a-1''"
    "rule1 ((''name'', Str ''a/b'') # hyphen_class)"
    "rule2 ((''name'', Str ''a/b'') # hyphen_class)"
    "rule3 registry_api (rich_text init_world) ((''name'', Str ''a/b'') # hyphen_class)"
    "rule4 ((''name'', Str ''a/b'') # hyphen_class)"
    "rule8 registry_api (rich_text init_world) ((''name'', Str ''a/b'') # hyphen_class)"
    "rule9 ((''name'', Str ''a/b'') # hyphen_class)"
    "rule10 ((''name'', Str ''a/b'') # hyphen_class)"
    "rule11 ((''name'', Str ''a/b'') # hyphen_class)"
    "\<not> keywords_unreadable ((''name'', Str ''a/b'') # hyphen_class)"
    using name
    by (simp_all add: rule1_def rule2_def rule3_def rule4_def rule8_def rule9_def rule10_def
        rule11_def keywords_unreadable_def hyphen_class_def get_def has_property_def
        registry_api_def registry_getFormatType_def registry_getFormatTypeForClassName_def
        init_world_def)
  show ?thesis
    using class_name_pattern [OF d1, of registry_api init_world]
      class_name_pattern [OF d2, of registry_api init_world] digit hyphen
    by blast
qed

text \<open>
  C7. For every descriptor that satisfies every rule other than the keywords rule, if
  \<open>keywords\<close> is an array of 4 entries the call logs the keywords diagnostic and returns
  \<open>undefined\<close>, and if it is an array of exactly 3 entries the call returns the
  descriptor and logs nothing.
\<close>

theorem keywords_limit:
  assumes d: "d = spread [(''name'', name)] settings"
    and valid: "rule1 d" "rule2 d" "rule3 api (rich_text w) d" "rule4 d" "rule5 d" "rule6 d"
      "rule7 api (rich_text w) d" "rule8 api (rich_text w) d" "rule9 d" "rule11 d"
    and kw: "get d ''keywords'' = Arr ks"
  shows "(length ks = 4 \<longrightarrow>
            registerFormatType api name settings w =
              (Inr None, w\<lparr>console := console w @ [TooManyKeywords (get d ''name'')]\<rparr>))
       \<and> (length ks = 3 \<longrightarrow>
            fst (registerFormatType api name settings w) = Inr (Some d)
          \<and> console (snd (registerFormatType api name settings w)) = console w)"
proof -
  have present: "has_property d ''keywords''"
    using kw by (auto intro: get_has_property)
  have readable: "\<not> keywords_unreadable d"
    using kw by (simp add: keywords_unreadable_def)
  have r10: "rule10 d \<longleftrightarrow> length ks \<le> 3"
    using kw present by (simp add: rule10_def)
  have v: "validate api (rich_text w) d =
      Inr (if length ks \<le> 3 then None else Some (TooManyKeywords (get d ''name'')))"
    using valid readable r10 by (simp add: validate_follows_rules first_failure_def)
  show ?thesis
    by (simp add: register_by_validate d [symmetric] v install_console)
qed

theorem keywords_limit_witness:
  "registerFormatType registry_api (Str ''a/b'') four_keywords init_world =
     (Inr None, init_world\<lparr>console := console init_world @ [TooManyKeywords (Str ''a/b'')]\<rparr>)
   \<and> fst (registerFormatType registry_api (Str ''a/b'') three_keywords init_world) =
       Inr (Some ((''name'', Str ''a/b'') # three_keywords))"
proof -
  have name: "''a/b'' \<in> lang name_re"
    unfolding matches_iff [symmetric] by (simp add: name_re_def in_class_def in_range_def)
  have d4: "spread [(''name'', Str ''a/b'')] four_keywords = (''name'', Str ''a/b'') # four_keywords"
    by (simp add: spread_def four_keywords_def bold_def)
  have d3: "spread [(''name'', Str ''a/b'')] three_keywords = (''name'', Str ''a/b'') # three_keywords"
    by (simp add: spread_def three_keywords_def bold_def)
  have r4: "rule1 ((''name'', Str ''a/b'') # four_keywords)"
    "rule2 ((''name'', Str ''a/b'') # four_keywords)"
    "rule3 registry_api (rich_text init_world) ((''name'', Str ''a/b'') # four_keywords)"
    "rule4 ((''name'', Str ''a/b'') # four_keywords)"
    "rule5 ((''name'', Str ''a/b'') # four_keywords)"
    "rule6 ((''name'', Str ''a/b'') # four_keywords)"
    "rule7 registry_api (rich_text init_world) ((''name'', Str ''a/b'') # four_keywords)"
    "rule8 registry_api (rich_text init_world) ((''name'', Str ''a/b'') # four_keywords)"
    "rule9 ((''name'', Str ''a/b'') # four_keywords)"
    "rule11 ((''name'', Str ''a/b'') # four_keywords)"
    using name
    by (simp_all add: rule1_def rule2_def rule3_def rule4_def rule5_def rule6_def rule7_def
        rule8_def rule9_def rule11_def four_keywords_def bold_def get_def has_property_def
        registry_api_def registry_getFormatType_def registry_getFormatTypeForBareElement_def
        init_world_def)
  have r3: "rule1 ((''name'', Str ''a/b'') # three_keywords)"
    "rule2 ((''name'', Str ''a/b'') # three_keywords)"
    "rule3 registry_api (rich_text init_world) ((''name'', Str ''a/b'') # three_keywords)"
    "rule4 ((''name'', Str ''a/b'') # three_keywords)"
    "rule5 ((''name'', Str ''a/b'') # three_keywords)"
    "rule6 ((''name'', Str ''a/b'') # three_keywords)"
    "rule7 registry_api (rich_text init_world) ((''name'', Str ''a/b'') # three_keywords)"
    "rule8 registry_api (rich_text init_world) ((''name'', Str ''a/b'') # three_keywords)"
    "rule9 ((''name'', Str ''a/b'') # three_keywords)"
    "rule11 ((''name'', Str ''a/b'') # three_keywords)"
    using name
    by (simp_all add: rule1_def rule2_def rule3_def rule4_def rule5_def rule6_def rule7_def
        rule8_def rule9_def rule11_def three_keywords_def bold_def get_def has_property_def
        registry_api_def registry_getFormatType_def registry_getFormatTypeForBareElement_def
        init_world_def)
  have k4: "get ((''name'', Str ''a/b'') # four_keywords) ''keywords'' =
      Arr [Str ''a'', Str ''b'', Str ''c'', Str ''d'']"
    by (simp add: four_keywords_def bold_def get_def)
  have k3: "get ((''name'', Str ''a/b'') # three_keywords) ''keywords'' =
      Arr [Str ''a'', Str ''b'', Str ''c'']"
    by (simp add: three_keywords_def bold_def get_def)
  show ?thesis
    using keywords_limit [OF d4 [symmetric] r4 k4]
      keywords_limit [OF d3 [symmetric] r3 k3]
    by (simp add: get_Cons)
qed

text \<open>
  C8. In a state the program can reach, for every builder and every pair
  \<open>(previousStack, newFunction)\<close> (the previous stack being \<open>undefined\<close> or an array),
  the function-stack builder returns an array whose contents are the previous stack
  with \<open>newFunction\<close> appended. Whatever registrations and builder calls come later, the
  same call returns that same array, allocates nothing, and finds the array as it was. A
  call with different arguments returns a different array, which holds its own
  concatenation, and leaves the first array as it was; after it the first arguments
  still give the first array.
\<close>

theorem function_stack_memoized:
  assumes ok: "world_ok w" and b: "b < length (memoized w)" and arg: "stack_arg w previousStack"
  shows "\<exists>r w1. getFunctionStackMemoized b previousStack newFunction w = Some (r, w1)
     \<and> heap w1 ! r = (case previousStack of None \<Rightarrow> [] | Some p \<Rightarrow> heap w ! p) @ [newFunction]
     \<and> (\<forall>events.
          getFunctionStackMemoized b previousStack newFunction (later api events w1) =
            Some (r, later api events w1)
          \<and> heap (later api events w1) ! r = heap w1 ! r)
     \<and> (\<forall>events previousStack' newFunction'.
          (previousStack', newFunction') \<noteq> (previousStack, newFunction) \<longrightarrow>
          stack_arg (later api events w1) previousStack' \<longrightarrow>
          (\<exists>r' w2. getFunctionStackMemoized b previousStack' newFunction' (later api events w1) =
                      Some (r', w2)
             \<and> r' \<noteq> r
             \<and> heap w2 ! r' =
                 (case previousStack' of None \<Rightarrow> [] | Some p \<Rightarrow> heap (later api events w1) ! p)
                 @ [newFunction']
             \<and> heap w2 ! r = heap w1 ! r
             \<and> getFunctionStackMemoized b previousStack newFunction w2 = Some (r, w2)))"
proof -
  from ok b arg obtain r w1 where
    call: "getFunctionStackMemoized b previousStack newFunction w = Some (r, w1)"
    and ok1: "world_ok w1"
    and r: "r < length (heap w1)"
    and contents: "heap w1 ! r =
      (case previousStack of None \<Rightarrow> [] | Some a \<Rightarrow> heap w ! a) @ [newFunction]"
    and cached: "map_of (memoized w1 ! b) (previousStack, newFunction) = Some r"
    and len: "length (memoized w1) = length (memoized w)"
    by (rule builder_call [of w b previousStack newFunction]) blast
  from b len have b1: "b < length (memoized w1)" by simp
  have kept: "b < length (memoized (later api events w1))"
    "map_of (memoized (later api events w1) ! b) (previousStack, newFunction) = Some r"
    "world_ok (later api events w1)"
    "r < length (heap (later api events w1))"
    "heap (later api events w1) ! r = heap w1 ! r" for events
    using b1 cached ok1 later_heap_kept [OF r, of api events]
    by (simp_all add: later_memoized later_cache_kept later_world_ok)
  have again: "getFunctionStackMemoized b previousStack newFunction (later api events w1) =
            Some (r, later api events w1)
          \<and> heap (later api events w1) ! r = heap w1 ! r" for events
    using builder_hit [OF kept(1,2), of events] kept(5) [of events] by simp
  have other: "\<exists>r' w2. getFunctionStackMemoized b p' f' (later api events w1) = Some (r', w2)
             \<and> r' \<noteq> r
             \<and> heap w2 ! r' = (case p' of None \<Rightarrow> [] | Some p \<Rightarrow> heap (later api events w1) ! p) @ [f']
             \<and> heap w2 ! r = heap w1 ! r
             \<and> getFunctionStackMemoized b previousStack newFunction w2 = Some (r, w2)"
    if differ: "(p', f') \<noteq> (previousStack, newFunction)"
      and arg': "stack_arg (later api events w1) p'" for events p' f'
  proof -
    let ?w = "later api events w1"
    from kept(3) [of events] kept(1) [of events] arg' obtain r' w2 where
      call': "getFunctionStackMemoized b p' f' ?w = Some (r', w2)"
      and ok2: "world_ok w2"
      and "r' < length (heap w2)"
      and contents': "heap w2 ! r' = (case p' of None \<Rightarrow> [] | Some a \<Rightarrow> heap ?w ! a) @ [f']"
      and cached': "map_of (memoized w2 ! b) (p', f') = Some r'"
      and len': "length (memoized w2) = length (memoized ?w)"
      and unchanged: "\<And>k. k \<noteq> (p', f') \<Longrightarrow> map_of (memoized w2 ! b) k = map_of (memoized ?w ! b) k"
      and "length (heap ?w) \<le> length (heap w2)"
      and same: "\<And>a. a < length (heap ?w) \<Longrightarrow> heap w2 ! a = heap ?w ! a"
      by (rule builder_call [of ?w b p' f']) blast
    from differ have "(previousStack, newFunction) \<noteq> (p', f')" by blast
    then have "map_of (memoized w2 ! b) (previousStack, newFunction) =
        map_of (memoized ?w ! b) (previousStack, newFunction)"
      by (rule unchanged)
    with kept(2) [of events]
    have still: "map_of (memoized w2 ! b) (previousStack, newFunction) = Some r" by simp
    from kept(1) [of events] len' have b2: "b < length (memoized w2)" by simp
    from ok2 b2 have "cache_ok (heap w2) (memoized w2 ! b)" by (simp add: world_ok_def)
    then have "r' \<noteq> r"
      using cache_ok_injective [of "heap w2" "memoized w2 ! b" "(p', f')" r "(previousStack, newFunction)"]
        cached' still differ by blast
    moreover have "heap w2 ! r = heap w1 ! r"
      using same [OF kept(4) [of events]] kept(5) [of events] by simp
    moreover have "getFunctionStackMemoized b previousStack newFunction w2 = Some (r, w2)"
      using b2 still by (rule builder_hit)
    ultimately show ?thesis using call' contents' by blast
  qed
  from call contents again other show ?thesis by blast
qed

theorem function_stack_memoized_witness:
  "\<exists>r w1. getFunctionStackMemoized 0 None 7 one_format = Some (r, w1)
     \<and> heap w1 ! r = [7]
     \<and> getFunctionStackMemoized 0 None 7
          (later registry_api [Register (Str ''core/spellcheck'') spellcheck, Build 0 None 8] w1) =
        Some (r, later registry_api [Register (Str ''core/spellcheck'') spellcheck, Build 0 None 8] w1)"
proof -
  have "world_ok one_format"
    unfolding one_format_def using world_ok_init by (rule world_ok_register)
  moreover have "0 < length (memoized one_format)" "stack_arg one_format None"
    by (simp_all add: one_format_eq stack_arg_def)
  ultimately show ?thesis
    using function_stack_memoized [of one_format 0 None 7 registry_api] by auto
qed

text \<open>
  C9, as stated, fails: the cache is not one cache shared by all registrations. Two
  registrations make two builders with two caches, and the same arguments given to the
  first builder and then to the second are not found in the second's cache: a second
  array is allocated.
\<close>

theorem cache_per_registration_counterexample:
  "map hook_builder (hooks two_formats) = [0, 1]
   \<and> memoized two_formats = [[], []]
   \<and> map_option fst (getFunctionStackMemoized 0 None 7 two_formats) = Some 1
   \<and> map_option fst (getFunctionStackMemoized 1 None 7
        (snd (the (getFunctionStackMemoized 0 None 7 two_formats)))) = Some 2"
  by (simp add: two_formats_eq getFunctionStackMemoized_def memize_call_def
      new_function_stack_def function_stack_def EMPTY_ARRAY_def)

text \<open>
  C9, amended. In a state the program can reach: every successful registration makes a
  new, empty memoization cache, the filter it installs closes over that cache, and no
  other filter does; a call that does not register makes no cache and installs nothing.
  Whatever registrations and builder calls come later, no two filters share a cache, no
  line of any cache is lost (nothing is evicted or torn down), and no cache holds two
  lines for the same \<open>(previousStack, newFunction)\<close> pair. A builder call changes its own
  cache only, by at most one line, for its own pair.
\<close>

theorem cache_per_registration:
  assumes ok: "world_ok w" and hk: "hooks_ok w"
  shows "(case fst (registerFormatType api name settings w) of
      Inr (Some d) \<Rightarrow>
        memoized (snd (registerFormatType api name settings w)) = memoized w @ [[]]
        \<and> (if truthy (get d ''__experimentalCreatePrepareEditableTree'')
           then \<exists>h. hooks (snd (registerFormatType api name settings w)) = hooks w @ [h]
                  \<and> hook_builder h = length (memoized w)
                  \<and> hook_builder h \<notin> hook_builder ` set (hooks w)
           else hooks (snd (registerFormatType api name settings w)) = hooks w)
    | _ \<Rightarrow> memoized (snd (registerFormatType api name settings w)) = memoized w
          \<and> hooks (snd (registerFormatType api name settings w)) = hooks w)
   \<and> distinct (map hook_builder (hooks (later api events w)))
   \<and> (\<forall>h \<in> set (hooks (later api events w)).
        hook_builder h < length (memoized (later api events w)))
   \<and> (\<forall>c k x. c < length (memoized w) \<longrightarrow> map_of (memoized w ! c) k = Some x \<longrightarrow>
        c < length (memoized (later api events w))
        \<and> map_of (memoized (later api events w) ! c) k = Some x)
   \<and> (\<forall>c \<in> set (memoized (later api events w)). distinct (map fst c))
   \<and> (getFunctionStackMemoized b previousStack newFunction w = Some (r, w1) \<longrightarrow>
        length (memoized w1) = length (memoized w)
      \<and> (\<forall>i < length (memoized w). i \<noteq> b \<longrightarrow> memoized w1 ! i = memoized w ! i)
      \<and> (memoized w1 ! b = memoized w ! b
         \<or> memoized w1 ! b = ((previousStack, newFunction), r) # memoized w ! b
           \<and> (previousStack, newFunction) \<notin> fst ` set (memoized w ! b)))"
proof (intro conjI)
  have fresh: "length (memoized w) \<notin> hook_builder ` set (hooks w)"
    using hk by (auto simp: hooks_ok_def)
  show "case fst (registerFormatType api name settings w) of
      Inr (Some d) \<Rightarrow>
        memoized (snd (registerFormatType api name settings w)) = memoized w @ [[]]
        \<and> (if truthy (get d ''__experimentalCreatePrepareEditableTree'')
           then \<exists>h. hooks (snd (registerFormatType api name settings w)) = hooks w @ [h]
                  \<and> hook_builder h = length (memoized w)
                  \<and> hook_builder h \<notin> hook_builder ` set (hooks w)
           else hooks (snd (registerFormatType api name settings w)) = hooks w)
    | _ \<Rightarrow> memoized (snd (registerFormatType api name settings w)) = memoized w
          \<and> hooks (snd (registerFormatType api name settings w)) = hooks w"
    using fresh
    by (cases rule: register_cases [of api name settings w])
       (simp_all add: install_memoized install_hooks)
next
  from hk have "hooks_ok (later api events w)" by (rule later_hooks_ok)
  then show "distinct (map hook_builder (hooks (later api events w)))"
    "\<forall>h \<in> set (hooks (later api events w)).
        hook_builder h < length (memoized (later api events w))"
    by (simp_all add: hooks_ok_def)
next
  show "\<forall>c k x. c < length (memoized w) \<longrightarrow> map_of (memoized w ! c) k = Some x \<longrightarrow>
        c < length (memoized (later api events w))
        \<and> map_of (memoized (later api events w) ! c) k = Some x"
    by (simp add: later_memoized later_cache_kept)
next
  from ok have "world_ok (later api events w)" by (rule later_world_ok)
  then show "\<forall>c \<in> set (memoized (later api events w)). distinct (map fst c)"
    by (simp add: world_ok_def cache_ok_def)
next
  show "getFunctionStackMemoized b previousStack newFunction w = Some (r, w1) \<longrightarrow>
        length (memoized w1) = length (memoized w)
      \<and> (\<forall>i < length (memoized w). i \<noteq> b \<longrightarrow> memoized w1 ! i = memoized w ! i)
      \<and> (memoized w1 ! b = memoized w ! b
         \<or> memoized w1 ! b = ((previousStack, newFunction), r) # memoized w ! b
           \<and> (previousStack, newFunction) \<notin> fst ` set (memoized w ! b))"
  proof
    assume "getFunctionStackMemoized b previousStack newFunction w = Some (r, w1)"
    then show "length (memoized w1) = length (memoized w)
      \<and> (\<forall>i < length (memoized w). i \<noteq> b \<longrightarrow> memoized w1 ! i = memoized w ! i)
      \<and> (memoized w1 ! b = memoized w ! b
         \<or> memoized w1 ! b = ((previousStack, newFunction), r) # memoized w ! b
           \<and> (previousStack, newFunction) \<notin> fst ` set (memoized w ! b))"
      by (cases rule: builder_cases) (simp_all add: map_of_eq_None_iff)
  qed
qed

theorem cache_per_registration_witness:
  "memoized one_format = memoized init_world @ [[]]
   \<and> (\<exists>h. hooks one_format = hooks init_world @ [h] \<and> hook_builder h = length (memoized init_world))
   \<and> distinct (map hook_builder (hooks (later registry_api
        [Register (Str ''core/annotation'') annotation,
         Register (Str ''core/spellcheck'') spellcheck, Build 0 None 7] init_world)))"
proof -
  have reg: "fst (registerFormatType registry_api (Str ''core/annotation'') annotation init_world) =
      Inr (Some ((''name'', Str ''core/annotation'') # annotation))"
    by (simp add: run_defs annotation_def)
  have hook: "truthy (get ((''name'', Str ''core/annotation'') # annotation)
      ''__experimentalCreatePrepareEditableTree'')"
    by (simp add: get_def annotation_def)
  show ?thesis
    using cache_per_registration [OF world_ok_init hooks_ok_init,
        of registry_api "Str ''core/annotation''" annotation
          "[Register (Str ''core/annotation'') annotation,
            Register (Str ''core/spellcheck'') spellcheck, Build 0 None 7]" 0 None 7 0 init_world]
    by (simp add: reg hook one_format_def) blast
qed



end
